theory Spec2Isabelle
  imports Main "HOL-Library.Word" "HOL-Library.Sublist"
begin

section \<open>Common types of the framework\<close>

text \<open>
  The result codes of \<^verbatim>\<open>le_result_t\<close> that the supervisor and the thread runtime
  return or compare against.
\<close>

datatype le_result =
    LE_OK | LE_NOT_FOUND | LE_NOT_POSSIBLE | LE_OUT_OF_RANGE | LE_FAULT
  | LE_OVERFLOW | LE_DEADLOCK | LE_DUPLICATE | LE_BUSY

type_synonym uid_t = "32 word"
type_synonym gid_t = "32 word"
type_synonym pid_t = int
type_synonym proc_Ref = nat

datatype app_State = APP_STATE_STOPPED | APP_STATE_RUNNING

datatype proc_State = PROC_STATE_STOPPED | PROC_STATE_RUNNING

datatype KillType = KILL_SOFT | KILL_HARD

datatype signal = SIGTERM | SIGKILL

datatype cgrp_SubSys = CGRP_SUBSYS_CPU | CGRP_SUBSYS_MEM | CGRP_SUBSYS_FREEZE

text \<open>
  \<^verbatim>\<open>cgrp_frz_GetState\<close> answers with a freeze state or with the error code
  \<^verbatim>\<open>LE_FAULT\<close> cast to the enumeration; the third constructor is that error answer.
\<close>

datatype cgrp_FreezeState = CGRP_FROZEN | CGRP_THAWED | CGRP_STATE_LE_FAULT

text \<open>
  \<^verbatim>\<open>cgrp_SendSig\<close> answers with the number of processes signalled or with
  \<^verbatim>\<open>LE_FAULT\<close>.
\<close>

datatype sendsig_result = Signalled nat | SendSigFault

datatype FaultAction =
    FAULT_ACTION_NONE | FAULT_ACTION_IGNORE | FAULT_ACTION_RESTART_PROC
  | FAULT_ACTION_RESTART_APP | FAULT_ACTION_STOP_APP | FAULT_ACTION_REBOOT

datatype WatchdogAction =
    WATCHDOG_ACTION_NOT_FOUND | WATCHDOG_ACTION_IGNORE | WATCHDOG_ACTION_STOP
  | WATCHDOG_ACTION_RESTART | WATCHDOG_ACTION_RESTART_APP | WATCHDOG_ACTION_STOP_APP
  | WATCHDOG_ACTION_REBOOT | WATCHDOG_ACTION_ERROR | WATCHDOG_ACTION_HANDLED

section \<open>The application object\<close>

text \<open>
  The only function ever stored in a container's \<^verbatim>\<open>stopHandler\<close> slot is the
  executor's \<^verbatim>\<open>proc_Start\<close>; the external stop handler is an opaque callback,
  identified by a number.
\<close>

datatype ProcStopHandler = Proc_Start

record ProcContainer =
  procRef :: proc_Ref
  stopHandler :: "ProcStopHandler option"
  externStopHandler :: "nat option"
  externContextPtr :: nat

datatype TimerHandler = HardKillApp

text \<open>
  Modelled from the spec: the timer service (\<^verbatim>\<open>le_timer\<close>) is not part of the
  sources at hand. A timer is created stopped, one-shot (it fires once per start) and
  without settings, the setters store their argument, \<^verbatim>\<open>le_timer_Start\<close> arms the
  timer and \<^verbatim>\<open>le_timer_Stop\<close> disarms it.
\<close>

record Timer =
  tmName :: string
  tmInterval :: "(nat \<times> nat) option"
  tmRepeatCount :: nat
  tmContext :: "string option"
  tmHandler :: "TimerHandler option"
  tmRunning :: bool

definition le_timer_Create :: "string \<Rightarrow> Timer" where
  "le_timer_Create nm =
     \<lparr>tmName = nm, tmInterval = None, tmRepeatCount = 1, tmContext = None, tmHandler = None,
      tmRunning = False\<rparr>"

definition le_timer_Start :: "Timer \<Rightarrow> Timer" where
  "le_timer_Start t = t\<lparr>tmRunning := True\<rparr>"

definition le_timer_Stop :: "Timer \<Rightarrow> Timer" where
  "le_timer_Stop t = t\<lparr>tmRunning := False\<rparr>"

definition KillTimeout :: "nat \<times> nat" where
  "KillTimeout = (1, 0)"

record App =
  name :: string
  cfgPathRoot :: string
  sandboxed :: bool
  installDirPath :: string
  workingDir :: string
  uid :: uid_t
  gid :: gid_t
  supplementGids :: "gid_t list"
  numSupplementGids :: nat
  state :: app_State
  procs :: "ProcContainer list"
  auxProcs :: "ProcContainer list"
  killTimer :: "Timer option"

section \<open>Reading the supplementary groups of an app\<close>

text \<open>
  The copy loop \<^verbatim>\<open>for (i = 0; i < n; i++) groupsPtr[i] = appRef->supplementGids[i]\<close>,
  started at index \<open>i\<close>.
\<close>

function copyGids :: "nat \<Rightarrow> nat \<Rightarrow> gid_t list \<Rightarrow> gid_t list \<Rightarrow> gid_t list" where
  "copyGids i n src dst = (if i < n then copyGids (Suc i) n src (dst[i := src ! i]) else dst)"
  by pat_completeness auto
termination
  by (relation "measure (\<lambda>(i, n, src, dst). n - i)") auto

declare copyGids.simps [simp del]

text \<open>
  \<^verbatim>\<open>app_GetSupplementaryGroups\<close>: the caller's buffer is \<open>groups\<close>, the in/out
  count is \<open>numGroups\<close>. The C code indexes both arrays without a check; an index
  beyond the stored array or beyond the caller's buffer is undefined behaviour, which
  the model returns as \<open>None\<close>. Otherwise the result is the return code, the buffer
  and the count written back.
\<close>

definition app_GetSupplementaryGroups ::
  "App \<Rightarrow> gid_t list \<Rightarrow> nat \<Rightarrow> (le_result \<times> gid_t list \<times> nat) option" where
  "app_GetSupplementaryGroups appRef groups numGroups =
     (if numGroups \<ge> numSupplementGids appRef then
        (if numSupplementGids appRef \<le> length (supplementGids appRef)
            \<and> numSupplementGids appRef \<le> length groups
         then Some (LE_OK,
                    copyGids 0 (numSupplementGids appRef) (supplementGids appRef) groups,
                    numSupplementGids appRef)
         else None)
      else
        (if numGroups \<le> length (supplementGids appRef) \<and> numGroups \<le> length groups
         then Some (LE_OVERFLOW,
                    copyGids 0 numGroups (supplementGids appRef) groups,
                    numSupplementGids appRef)
         else None))"

section \<open>The supervisor's collaborators\<close>

text \<open>
  The control-group service, the process executor, the config store and the runtime-area
  builder are called by the lifecycle engine but are not part of it. Their answers are
  inputs of the model: one field per call site, named after the function called.
  \<^verbatim>\<open>cgrp_frz_GetState\<close> is polled in a loop, so its answer depends on the number of
  the poll. \<open>cfg_watchdogAction\<close> is the answer of \<^verbatim>\<open>le_cfg_GetString\<close> for the
  app-level watchdog action node. \<open>CreateTmpFs\<close> and \<open>CreateDefaultTmpLinks\<close> are the
  return codes of the two steps that build \<^verbatim>\<open>/tmp\<close> of a sandboxed app; the mounts and
  links they make are not part of the model.
\<close>

record env =
  cgrp_frz_Freeze :: le_result
  cgrp_frz_GetState :: "nat \<Rightarrow> cgrp_FreezeState"
  cgrp_SendSig :: sendsig_result
  cgrp_frz_Thaw :: le_result
  cgrp_IsEmpty :: bool
  proc_GetState :: "proc_Ref \<Rightarrow> proc_State"
  proc_GetPID :: "proc_Ref \<Rightarrow> pid_t"
  proc_Start :: "proc_Ref \<Rightarrow> le_result"
  proc_SigChildHandler :: "proc_Ref \<Rightarrow> int \<Rightarrow> FaultAction"
  proc_GetWatchdogAction :: "proc_Ref \<Rightarrow> WatchdogAction"
  cfg_watchdogAction :: "le_result \<times> string"
  wdog_action_EnumFromString :: "string \<Rightarrow> WatchdogAction"
  CreateTmpFs :: le_result
  CreateDefaultTmpLinks :: le_result

text \<open>The calls made to the collaborators, in the order the code makes them.\<close>

datatype event =
    EvCgrpFreeze string
  | EvCgrpGetState string
  | EvProcStopping proc_Ref
  | EvCgrpSendSig cgrp_SubSys string signal
  | EvCgrpThaw string
  | EvProcStart proc_Ref
  | EvKillHard pid_t
  | EvExternStop nat int nat
  | EvProcSigChild proc_Ref int
  | EvCreateTmpFs
  | EvCreateDefaultTmpLinks

section \<open>Kill escalation\<close>

text \<open>
  The busy-wait of \<^verbatim>\<open>KillAppProcs\<close>: poll the freeze state until it is
  \<^verbatim>\<open>CGRP_FROZEN\<close> or the error answer. The loop has no bound; the result is the
  number of polls made, and \<open>None\<close> when the loop never ends.
\<close>

partial_function (option) WaitFrozen :: "(nat \<Rightarrow> cgrp_FreezeState) \<Rightarrow> nat \<Rightarrow> nat option" where
  "WaitFrozen getState i =
     (if getState i = CGRP_FROZEN then Some (Suc i)
      else if getState i = CGRP_STATE_LE_FAULT then Some (Suc i)
      else WaitFrozen getState (Suc i))"

text \<open>
  The walk over \<^verbatim>\<open>appRef->procs\<close> that tells the executor which processes are about
  to be killed: a container whose process is not stopped loses its \<^verbatim>\<open>stopHandler\<close>
  and its process is marked as stopping.
\<close>

fun TellStopping :: "env \<Rightarrow> ProcContainer list \<Rightarrow> ProcContainer list \<times> event list" where
  "TellStopping e [] = ([], [])"
| "TellStopping e (c # cs) =
     (let (cs', tr) = TellStopping e cs in
      if proc_GetState e (procRef c) \<noteq> PROC_STATE_STOPPED
      then (c\<lparr>stopHandler := None\<rparr> # cs', EvProcStopping (procRef c) # tr)
      else (c # cs', tr))"

definition FreezeApp :: "env \<Rightarrow> string \<Rightarrow> event list option" where
  "FreezeApp e nm =
     (if cgrp_frz_Freeze e = LE_OK
      then (case WaitFrozen (cgrp_frz_GetState e) 0 of
              None \<Rightarrow> None
            | Some n \<Rightarrow> Some (EvCgrpFreeze nm # replicate n (EvCgrpGetState nm)))
      else Some [EvCgrpFreeze nm])"

definition killSig :: "KillType \<Rightarrow> signal" where
  "killSig killType = (if killType = KILL_SOFT then SIGTERM else SIGKILL)"

definition KillAppProcs :: "env \<Rightarrow> App \<Rightarrow> KillType \<Rightarrow> (le_result \<times> App \<times> event list) option" where
  "KillAppProcs e appRef killType =
     (case FreezeApp e (name appRef) of
        None \<Rightarrow> None
      | Some tr1 \<Rightarrow>
          (let (ps, tr2) = TellStopping e (procs appRef);
               app1 = appRef\<lparr>procs := ps\<rparr>;
               sent = tr1 @ tr2 @ [EvCgrpSendSig CGRP_SUBSYS_FREEZE (name appRef) (killSig killType)]
           in case cgrp_SendSig e of
                SendSigFault \<Rightarrow> Some (LE_NOT_FOUND, app1, sent)
              | Signalled numProcs \<Rightarrow>
                  Some (if numProcs = 0 then LE_NOT_FOUND else LE_OK,
                        app1, sent @ [EvCgrpThaw (name appRef)])))"

section \<open>Stopping and starting an app\<close>

text \<open>
  The kill timer as \<^verbatim>\<open>app_Stop\<close> sets it up on first use. Its name is formatted into
  a buffer of the size of a path; the cut that a longer name would get is not modelled,
  and nothing reads the name.
\<close>

definition newKillTimer :: "App \<Rightarrow> Timer" where
  "newKillTimer appRef =
     (le_timer_Create (name appRef @ ''_Killer''))
       \<lparr>tmInterval := Some KillTimeout, tmContext := Some (name appRef),
        tmHandler := Some HardKillApp\<rparr>"

definition app_Stop :: "env \<Rightarrow> App \<Rightarrow> (App \<times> event list) option" where
  "app_Stop e appRef =
     (if state appRef = APP_STATE_STOPPED then Some (appRef, [])
      else case KillAppProcs e appRef KILL_SOFT of
             None \<Rightarrow> None
           | Some (r, app1, tr) \<Rightarrow>
               if r = LE_NOT_FOUND then Some (app1\<lparr>state := APP_STATE_STOPPED\<rparr>, tr)
               else
                 (let t = (case killTimer app1 of None \<Rightarrow> newKillTimer app1 | Some t \<Rightarrow> t)
                  in Some (app1\<lparr>killTimer := Some (le_timer_Start t)\<rparr>, tr)))"

text \<open>The kill timer is armed when it exists and is running.\<close>

definition armed :: "App \<Rightarrow> bool" where
  "armed appRef = (case killTimer appRef of None \<Rightarrow> False | Some t \<Rightarrow> tmRunning t)"

text \<open>
  The start loop of \<^verbatim>\<open>app_Start\<close>: start each container's process in list order and
  stop at the first one that fails. The flag tells whether every process started.
\<close>

fun StartProcs :: "env \<Rightarrow> ProcContainer list \<Rightarrow> bool \<times> event list" where
  "StartProcs e [] = (True, [])"
| "StartProcs e (c # cs) =
     (if proc_Start e (procRef c) \<noteq> LE_OK then (False, [EvProcStart (procRef c)])
      else (let (ok, tr) = StartProcs e cs in (ok, EvProcStart (procRef c) # tr)))"

definition app_Start :: "env \<Rightarrow> App \<Rightarrow> (le_result \<times> App \<times> event list) option" where
  "app_Start e appRef =
     (if state appRef = APP_STATE_RUNNING then Some (LE_FAULT, appRef, [])
      else
        (let app1 = appRef\<lparr>state := APP_STATE_RUNNING\<rparr> in
         if sandboxed app1 \<and> CreateTmpFs e \<noteq> LE_OK
         then Some (LE_FAULT, app1, [EvCreateTmpFs])
         else if sandboxed app1 \<and> CreateDefaultTmpLinks e \<noteq> LE_OK
         then Some (LE_FAULT, app1, [EvCreateTmpFs, EvCreateDefaultTmpLinks])
         else
           (let tr0 = (if sandboxed app1 then [EvCreateTmpFs, EvCreateDefaultTmpLinks] else []);
                (ok, tr1) = StartProcs e (procs app1)
            in if ok then Some (LE_OK, app1, tr0 @ tr1)
               else (case app_Stop e app1 of
                       None \<Rightarrow> None
                     | Some (app2, tr2) \<Rightarrow> Some (LE_FAULT, app2, tr0 @ tr1 @ tr2)))))"

section \<open>Finding a process container by pid\<close>

text \<open>
  \<^verbatim>\<open>FindProcContainerInList\<close> returns the first container of the list whose process
  has the pid; the model returns its position. \<^verbatim>\<open>FindProcContainer\<close> searches the
  configured list, then the auxiliary list; a found container is addressed by the list
  it is in and its position there.
\<close>

fun FindProcContainerInList :: "env \<Rightarrow> ProcContainer list \<Rightarrow> pid_t \<Rightarrow> nat option" where
  "FindProcContainerInList e [] pid = None"
| "FindProcContainerInList e (c # cs) pid =
     (if proc_GetPID e (procRef c) = pid then Some 0
      else map_option Suc (FindProcContainerInList e cs pid))"

datatype ProcContainerPtr = InProcs nat | InAuxProcs nat

definition FindProcContainer :: "env \<Rightarrow> App \<Rightarrow> pid_t \<Rightarrow> ProcContainerPtr option" where
  "FindProcContainer e appRef pid =
     (case FindProcContainerInList e (procs appRef) pid of
        Some i \<Rightarrow> Some (InProcs i)
      | None \<Rightarrow> map_option InAuxProcs (FindProcContainerInList e (auxProcs appRef) pid))"

fun container :: "App \<Rightarrow> ProcContainerPtr \<Rightarrow> ProcContainer" where
  "container appRef (InProcs i) = procs appRef ! i"
| "container appRef (InAuxProcs i) = auxProcs appRef ! i"

fun setStopHandler :: "App \<Rightarrow> ProcContainerPtr \<Rightarrow> ProcStopHandler option \<Rightarrow> App" where
  "setStopHandler appRef (InProcs i) h =
     appRef\<lparr>procs := (procs appRef)[i := (procs appRef ! i)\<lparr>stopHandler := h\<rparr>]\<rparr>"
| "setStopHandler appRef (InAuxProcs i) h =
     appRef\<lparr>auxProcs := (auxProcs appRef)[i := (auxProcs appRef ! i)\<lparr>stopHandler := h\<rparr>]\<rparr>"

definition StopProc :: "env \<Rightarrow> proc_Ref \<Rightarrow> event list" where
  "StopProc e p = [EvProcStopping p, EvKillHard (proc_GetPID e p)]"

section \<open>The SIGCHLD handler\<close>

text \<open>
  The per-process part of \<^verbatim>\<open>app_SigChildHandler\<close> for a found container: the external
  stop handler is called when there is one, the executor is asked for a fault action, and
  the switch maps it to the fault action reported to the caller, which starts as
  \<^verbatim>\<open>FAULT_ACTION_IGNORE\<close>.
\<close>

definition handleProcExit :: "env \<Rightarrow> ProcContainer \<Rightarrow> int \<Rightarrow> FaultAction \<times> event list" where
  "handleProcExit e c procExitStatus =
     (let tr1 = (case externStopHandler c of
                   None \<Rightarrow> []
                 | Some h \<Rightarrow> [EvExternStop h procExitStatus (externContextPtr c)]);
          p = procRef c;
          tr2 = tr1 @ [EvProcSigChild p procExitStatus]
      in case proc_SigChildHandler e p procExitStatus of
           FAULT_ACTION_NONE \<Rightarrow>
             (case stopHandler c of
                None \<Rightarrow> (FAULT_ACTION_IGNORE, tr2)
              | Some Proc_Start \<Rightarrow>
                  (if proc_Start e p \<noteq> LE_OK then FAULT_ACTION_STOP_APP else FAULT_ACTION_IGNORE,
                   tr2 @ [EvProcStart p]))
         | FAULT_ACTION_IGNORE \<Rightarrow> (FAULT_ACTION_IGNORE, tr2)
         | FAULT_ACTION_RESTART_PROC \<Rightarrow>
             (if proc_Start e p \<noteq> LE_OK then FAULT_ACTION_STOP_APP else FAULT_ACTION_IGNORE,
              tr2 @ [EvProcStart p])
         | FAULT_ACTION_RESTART_APP \<Rightarrow> (FAULT_ACTION_RESTART_APP, tr2)
         | FAULT_ACTION_STOP_APP \<Rightarrow> (FAULT_ACTION_STOP_APP, tr2)
         | FAULT_ACTION_REBOOT \<Rightarrow> (FAULT_ACTION_REBOOT, tr2))"

definition HasRunningProc :: "env \<Rightarrow> App \<Rightarrow> bool" where
  "HasRunningProc e appRef = (\<not> cgrp_IsEmpty e)"

definition app_SigChildHandler ::
  "env \<Rightarrow> App \<Rightarrow> pid_t \<Rightarrow> int \<Rightarrow> FaultAction \<times> App \<times> event list" where
  "app_SigChildHandler e appRef procPid procExitStatus =
     (let (faultAction, tr) =
            (case FindProcContainer e appRef procPid of
               None \<Rightarrow> (FAULT_ACTION_IGNORE, [])
             | Some ptr \<Rightarrow> handleProcExit e (container appRef ptr) procExitStatus)
      in if \<not> HasRunningProc e appRef
         then (faultAction,
               appRef\<lparr>killTimer := map_option le_timer_Stop (killTimer appRef),
                      state := APP_STATE_STOPPED\<rparr>,
               tr)
         else (faultAction, appRef, tr))"

section \<open>The watchdog timeout handler\<close>

text \<open>
  The action the handler acts on: the process's own, or, when that is
  \<^verbatim>\<open>WATCHDOG_ACTION_NOT_FOUND\<close> or \<^verbatim>\<open>WATCHDOG_ACTION_ERROR\<close>, the one read from the
  app's config node (an unreadable string gives \<^verbatim>\<open>WATCHDOG_ACTION_ERROR\<close>).
\<close>

definition resolveWatchdogAction :: "env \<Rightarrow> proc_Ref \<Rightarrow> WatchdogAction" where
  "resolveWatchdogAction e p =
     (let watchdogAction = proc_GetWatchdogAction e p in
      if watchdogAction = WATCHDOG_ACTION_NOT_FOUND \<or> watchdogAction = WATCHDOG_ACTION_ERROR
      then (case cfg_watchdogAction e of
              (LE_OK, watchdogActionStr) \<Rightarrow> wdog_action_EnumFromString e watchdogActionStr
            | (_, _) \<Rightarrow> WATCHDOG_ACTION_ERROR)
      else watchdogAction)"

text \<open>
  The result is the return code, the value written through \<^verbatim>\<open>watchdogActionPtr\<close>
  (nothing is written when the pid is unknown), the app and the calls made.
\<close>

definition app_WatchdogTimeoutHandler ::
  "env \<Rightarrow> App \<Rightarrow> pid_t \<Rightarrow> le_result \<times> WatchdogAction option \<times> App \<times> event list" where
  "app_WatchdogTimeoutHandler e appRef procPid =
     (case FindProcContainer e appRef procPid of
        None \<Rightarrow> (LE_NOT_FOUND, None, appRef, [])
      | Some ptr \<Rightarrow>
          (let p = procRef (container appRef ptr) in
           case resolveWatchdogAction e p of
             WATCHDOG_ACTION_NOT_FOUND \<Rightarrow>
               (LE_OK, Some WATCHDOG_ACTION_HANDLED,
                setStopHandler appRef ptr (Some Proc_Start), StopProc e p)
           | WATCHDOG_ACTION_IGNORE \<Rightarrow> (LE_OK, Some WATCHDOG_ACTION_HANDLED, appRef, [])
           | WATCHDOG_ACTION_STOP \<Rightarrow>
               (LE_OK, Some WATCHDOG_ACTION_HANDLED, appRef, StopProc e p)
           | WATCHDOG_ACTION_RESTART \<Rightarrow>
               (LE_OK, Some WATCHDOG_ACTION_HANDLED,
                setStopHandler appRef ptr (Some Proc_Start), StopProc e p)
           | WATCHDOG_ACTION_RESTART_APP \<Rightarrow>
               (LE_OK, Some WATCHDOG_ACTION_RESTART_APP, appRef, [])
           | WATCHDOG_ACTION_STOP_APP \<Rightarrow> (LE_OK, Some WATCHDOG_ACTION_STOP_APP, appRef, [])
           | WATCHDOG_ACTION_REBOOT \<Rightarrow> (LE_OK, Some WATCHDOG_ACTION_REBOOT, appRef, [])
           | WATCHDOG_ACTION_ERROR \<Rightarrow> (LE_OK, Some WATCHDOG_ACTION_HANDLED, appRef, [])
           | WATCHDOG_ACTION_HANDLED \<Rightarrow> (LE_OK, Some WATCHDOG_ACTION_HANDLED, appRef, [])))"

section \<open>Identity setup\<close>

text \<open>
  The identity service and the \<^verbatim>\<open>groups\<close> node of the app's config are inputs:
  \<open>cfg_groups\<close> lists the children of the node, each with the answer that
  \<^verbatim>\<open>le_cfg_GetNodeName\<close> gives on it. The bound
  \<^verbatim>\<open>LIMIT_MAX_NUM_SUPPLEMENTARY_GROUPS\<close>, the size of the \<^verbatim>\<open>supplementGids\<close> array, is
  defined in a header that is not among the sources and is a field here.
\<close>

record identEnv =
  user_AppNameToUserName :: "string \<Rightarrow> le_result \<times> string"
  user_GetIDs :: "string \<Rightarrow> le_result \<times> uid_t \<times> gid_t"
  user_CreateGroup :: "string \<Rightarrow> le_result \<times> gid_t"
  cfg_groups :: "(le_result \<times> string) list"
  LIMIT_MAX_NUM_SUPPLEMENTARY_GROUPS :: nat

text \<open>
  The \<^verbatim>\<open>for\<close> loop of \<^verbatim>\<open>CreateSupplementaryGroups\<close>, with the iterator on \<open>node\<close>
  and \<open>rest\<close> the siblings after it. The result is the return code (\<^verbatim>\<open>LE_OK\<close>
  when the loop is left normally), the gid array and the value of \<open>i\<close> at that point.
  The test \<^verbatim>\<open>i >= LIMIT_MAX_NUM_SUPPLEMENTARY_GROUPS - 1\<close> is only reached with
  \<open>i\<close> below the bound, where the subtraction does not go below zero.
\<close>

fun ReadGroups ::
  "identEnv \<Rightarrow> nat \<Rightarrow> le_result \<times> string \<Rightarrow> (le_result \<times> string) list \<Rightarrow> gid_t list
     \<Rightarrow> le_result \<times> gid_t list \<times> nat" where
  "ReadGroups ie i node rest gids =
     (if i < LIMIT_MAX_NUM_SUPPLEMENTARY_GROUPS ie then
        (if fst node \<noteq> LE_OK then (LE_FAULT, gids, i)
         else if fst (user_CreateGroup ie (snd node)) = LE_FAULT then (LE_FAULT, gids, i)
         else
           (let gids' = gids[i := snd (user_CreateGroup ie (snd node))] in
            case rest of
              [] \<Rightarrow> (LE_OK, gids', i)
            | node' # rest' \<Rightarrow>
                if i \<ge> LIMIT_MAX_NUM_SUPPLEMENTARY_GROUPS ie - 1 then (LE_FAULT, gids', i)
                else ReadGroups ie (Suc i) node' rest' gids'))
      else (LE_OK, gids, i))"

declare ReadGroups.simps [simp del]

definition CreateSupplementaryGroups :: "identEnv \<Rightarrow> App \<Rightarrow> le_result \<times> App" where
  "CreateSupplementaryGroups ie appRef =
     (case cfg_groups ie of
        [] \<Rightarrow> (LE_OK, appRef)
      | node # rest \<Rightarrow>
          (case ReadGroups ie 0 node rest (supplementGids appRef) of
             (r, gids, i) \<Rightarrow>
               if r = LE_OK
               then (LE_OK, appRef\<lparr>supplementGids := gids, numSupplementGids := i + 1\<rparr>)
               else (r, appRef\<lparr>supplementGids := gids\<rparr>)))"

text \<open>
  \<^verbatim>\<open>CreateUserAndGroups\<close>. When \<^verbatim>\<open>user_GetIDs\<close> fails the app is returned as it was:
  what the identity service leaves in the two output fields then is not visible in the
  sources, and the caller deletes the app.
\<close>

definition CreateUserAndGroups :: "identEnv \<Rightarrow> App \<Rightarrow> le_result \<times> App" where
  "CreateUserAndGroups ie appRef =
     (if sandboxed appRef then
        (case user_AppNameToUserName ie (name appRef) of
           (r1, username) \<Rightarrow>
             if r1 \<noteq> LE_OK then (LE_FAULT, appRef)
             else (case user_GetIDs ie username of
                     (r2, u, g) \<Rightarrow>
                       if r2 \<noteq> LE_OK then (LE_FAULT, appRef)
                       else CreateSupplementaryGroups ie (appRef\<lparr>uid := u, gid := g\<rparr>)))
      else (LE_OK, appRef\<lparr>uid := 0, gid := 0\<rparr>))"

text \<open>
  \<^verbatim>\<open>app_Create\<close> up to the identity step. The object comes from a memory pool
  (\<open>block\<close> is what the pool hands out). A config path that does not fit the path
  buffer of \<open>LIMIT_MAX_PATH_BYTES\<close> bytes, terminator included, ends the creation with
  \<^verbatim>\<open>NULL\<close>. The fields the function initialises are the config path, the name, the two
  process lists, the state, the kill timer and the sandbox flag, read from the config as
  \<open>cfg_sandboxed\<close>. A failed identity step ends the creation with \<^verbatim>\<open>NULL\<close>. The
  steps after it (directory paths, process list, resource limits, MAC rules, runtime
  area) are the function \<open>laterSteps\<close>.
\<close>

definition app_Create ::
  "identEnv \<Rightarrow> nat \<Rightarrow> (string \<Rightarrow> string \<Rightarrow> string) \<Rightarrow> bool \<Rightarrow> (App \<Rightarrow> App option)
     \<Rightarrow> App \<Rightarrow> string \<Rightarrow> App option" where
  "app_Create ie LIMIT_MAX_PATH_BYTES le_path_GetBasenamePtr cfg_sandboxed laterSteps block
       cfgPathRootPtr =
     (if \<not> length cfgPathRootPtr < LIMIT_MAX_PATH_BYTES then None
      else
        (let appPtr = block\<lparr>cfgPathRoot := cfgPathRootPtr,
                           name := le_path_GetBasenamePtr cfgPathRootPtr ''/'',
                           procs := [], auxProcs := [], state := APP_STATE_STOPPED,
                           killTimer := None, sandboxed := cfg_sandboxed\<rparr>
         in case CreateUserAndGroups ie appPtr of
              (r, app1) \<Rightarrow> if r \<noteq> LE_OK then None else laterSteps app1))"

section \<open>MAC rules for bindings\<close>

text \<open>The calls made to the config store and to the label service.\<close>

datatype mac_event =
    CfgCreateReadTxn string
  | CfgGoToNode string
  | CfgGoToFirstChild
  | CfgGetString string
  | CfgGoToNextSibling
  | CfgCancelTxn
  | SmackSetRule string string string

text \<open>
  The \<^verbatim>\<open>do \<dots> while\<close> loop of \<^verbatim>\<open>SetSmackRulesForBindings\<close>, with the iterator on a
  node whose \<^verbatim>\<open>app\<close> string is read with the answer \<open>node\<close>, and \<open>rest\<close> the
  answers on the siblings after it.
\<close>

fun BindingsLoop ::
  "(string \<Rightarrow> string) \<Rightarrow> string \<Rightarrow> le_result \<times> string \<Rightarrow> (le_result \<times> string) list
     \<Rightarrow> mac_event list" where
  "BindingsLoop smack_GetAppLabel appLabelPtr node rest =
     CfgGetString ''app''
     # (if fst node = LE_OK \<and> snd node \<noteq> ''''
        then [SmackSetRule appLabelPtr ''rw'' (smack_GetAppLabel (snd node)),
              SmackSetRule (smack_GetAppLabel (snd node)) ''rw'' appLabelPtr]
        else [])
     @ CfgGoToNextSibling
     # (case rest of [] \<Rightarrow> [] | node' # rest' \<Rightarrow> BindingsLoop smack_GetAppLabel appLabelPtr node' rest')"

declare BindingsLoop.simps [simp del]

fun isSmackSetRule :: "mac_event \<Rightarrow> bool" where
  "isSmackSetRule (SmackSetRule subject access object) = True"
| "isSmackSetRule ev = False"

text \<open>The two rules that a binding to the server app \<open>serverName\<close> asks for.\<close>

definition bindingRules :: "(string \<Rightarrow> string) \<Rightarrow> string \<Rightarrow> string \<Rightarrow> mac_event list" where
  "bindingRules smack_GetAppLabel appLabelPtr serverName =
     [SmackSetRule appLabelPtr ''rw'' (smack_GetAppLabel serverName),
      SmackSetRule (smack_GetAppLabel serverName) ''rw'' appLabelPtr]"

text \<open>
  \<open>children\<close> are the answers on the children of the \<^verbatim>\<open>bindings\<close> node. When there
  are none, the code cancels the transaction and then runs the loop all the same, on the
  cancelled iterator: \<open>staleNode\<close> and \<open>staleRest\<close> are what the config store answers
  to the reads made through it.
\<close>

definition SetSmackRulesForBindings ::
  "(string \<Rightarrow> string) \<Rightarrow> App \<Rightarrow> string \<Rightarrow> (le_result \<times> string) list
     \<Rightarrow> le_result \<times> string \<Rightarrow> (le_result \<times> string) list \<Rightarrow> mac_event list" where
  "SetSmackRulesForBindings smack_GetAppLabel appRef appLabelPtr children staleNode staleRest =
     [CfgCreateReadTxn (cfgPathRoot appRef), CfgGoToNode ''bindings'', CfgGoToFirstChild]
     @ (case children of
          [] \<Rightarrow> CfgCancelTxn # BindingsLoop smack_GetAppLabel appLabelPtr staleNode staleRest
        | node # rest \<Rightarrow> BindingsLoop smack_GetAppLabel appLabelPtr node rest)
     @ [CfgCancelTxn]"

section \<open>Destination paths of links\<close>

text \<open>
  \<^verbatim>\<open>GetAbsDestPath\<close>. The path module (\<^verbatim>\<open>le_path_Concat\<close>,
  \<^verbatim>\<open>le_path_GetBasenamePtr\<close>) is not among the sources; both functions are parameters,
  called with the arguments the code passes: separator, buffer content, buffer size and
  segments for the first, path and separator for the second. The code clears the buffer
  and reads the last character of the destination as
  \<^verbatim>\<open>destPtr[strlen(destPtr)-1]\<close>: with an empty destination this reads outside the
  string, and with a buffer of size zero the clearing writes outside the buffer; the
  model returns \<open>None\<close> for both. The callers read the destination with
  \<^verbatim>\<open>GetDestPath\<close>, which rejects an empty one, and pass fixed-size buffers.
\<close>

definition GetAbsDestPath ::
  "(string \<Rightarrow> string \<Rightarrow> nat \<Rightarrow> string list \<Rightarrow> le_result \<times> string) \<Rightarrow> (string \<Rightarrow> string \<Rightarrow> string)
     \<Rightarrow> string \<Rightarrow> string \<Rightarrow> string \<Rightarrow> nat \<Rightarrow> (le_result \<times> string) option" where
  "GetAbsDestPath le_path_Concat le_path_GetBasenamePtr destPtr srcPtr appRunDir bufSize =
     (if bufSize = 0 \<or> destPtr = [] then None
      else if destPtr ! (length destPtr - 1) = CHR ''/''
      then Some (le_path_Concat ''/'' [] bufSize
                   [appRunDir, destPtr, le_path_GetBasenamePtr srcPtr ''/''])
      else Some (le_path_Concat ''/'' [] bufSize [appRunDir, destPtr]))"

section \<open>Joining a thread\<close>

datatype thread_State = THREAD_STATE_NEW | THREAD_STATE_RUNNING | THREAD_STATE_DYING

record thread_Obj =
  thr_name :: string
  isJoinable :: bool
  thr_state :: thread_State
  threadHandle :: nat
  safeRef :: nat

text \<open>
  The module's data: the safe reference map (from references to object addresses), the
  list of thread objects, its change counter, and the pool, which holds the objects
  that are allocated.
\<close>

record thread_module =
  ThreadRefMap :: "nat \<rightharpoonup> nat"
  ThreadObjList :: "nat list"
  ThreadObjListChangeCount :: nat
  ThreadPool :: "nat \<rightharpoonup> thread_Obj"

text \<open>The return codes of \<^verbatim>\<open>pthread_join\<close> that the code tells apart.\<close>

datatype join_errno = JOIN_0 | EDEADLK | ESRCH | EOTHER int

text \<open>
  \<^verbatim>\<open>le_thread_Join\<close>. The function is run by a thread, whose handle is \<open>self\<close>; a
  thread joins with itself when the handle of the thread it names is its own. The
  operating system's answer to \<^verbatim>\<open>pthread_join\<close> depends on the caller and on the
  handle joined and is the parameter \<open>pthread_join\<close>. A reference that the map
  resolves to an address with no object in the pool would be a dangling pointer; the
  model returns \<open>None\<close> there.
\<close>

definition le_thread_Join ::
  "(nat \<Rightarrow> nat \<Rightarrow> join_errno) \<Rightarrow> nat \<Rightarrow> thread_module \<Rightarrow> nat
     \<Rightarrow> (le_result \<times> thread_module) option" where
  "le_thread_Join pthread_join self m thread =
     (case ThreadRefMap m thread of
        None \<Rightarrow> Some (LE_NOT_FOUND, m)
      | Some threadPtr \<Rightarrow>
          (case ThreadPool m threadPtr of
             None \<Rightarrow> None
           | Some obj \<Rightarrow>
               if \<not> isJoinable obj then Some (LE_NOT_POSSIBLE, m)
               else
                 (case pthread_join self (threadHandle obj) of
                    JOIN_0 \<Rightarrow>
                      Some (LE_OK,
                            m\<lparr>ThreadRefMap := (ThreadRefMap m)(safeRef obj := None),
                              ThreadObjListChangeCount := ThreadObjListChangeCount m + 1,
                              ThreadObjList := remove1 threadPtr (ThreadObjList m),
                              ThreadPool := (ThreadPool m)(threadPtr := None)\<rparr>)
                  | EDEADLK \<Rightarrow> Some (LE_DEADLOCK, m)
                  | ESRCH \<Rightarrow> Some (LE_NOT_FOUND, m)
                  | EOTHER error \<Rightarrow> Some (LE_NOT_POSSIBLE, m))))"

section \<open>Example inputs\<close>

text \<open>
  An environment in which the freeze takes effect at the first poll, the broadcast
  reaches one process, every process is running and starts without error, and no
  watchdog action is configured at either level.
\<close>

definition demoEnumFromString :: "string \<Rightarrow> WatchdogAction" where
  "demoEnumFromString s =
     (if s = [] then WATCHDOG_ACTION_NOT_FOUND
      else if s = ''restart'' then WATCHDOG_ACTION_RESTART
      else if s = ''stop'' then WATCHDOG_ACTION_STOP
      else if s = ''ignore'' then WATCHDOG_ACTION_IGNORE
      else WATCHDOG_ACTION_ERROR)"

definition demoEnv :: env where
  "demoEnv =
     \<lparr>cgrp_frz_Freeze = LE_OK, cgrp_frz_GetState = (\<lambda>n. CGRP_FROZEN),
      cgrp_SendSig = Signalled 1, cgrp_frz_Thaw = LE_OK, cgrp_IsEmpty = False,
      proc_GetState = (\<lambda>p. PROC_STATE_RUNNING), proc_GetPID = (\<lambda>p. 100 + int p),
      proc_Start = (\<lambda>p. LE_OK), proc_SigChildHandler = (\<lambda>p st. FAULT_ACTION_NONE),
      proc_GetWatchdogAction = (\<lambda>p. WATCHDOG_ACTION_NOT_FOUND),
      cfg_watchdogAction = (LE_OK, []), wdog_action_EnumFromString = demoEnumFromString,
      CreateTmpFs = LE_OK, CreateDefaultTmpLinks = LE_OK\<rparr>"

text \<open>The same with an empty freeze group, and with a failing broadcast.\<close>

definition emptyGroupEnv :: env where
  "emptyGroupEnv =
     demoEnv\<lparr>cgrp_SendSig := Signalled 0, cgrp_IsEmpty := True,
             proc_GetState := (\<lambda>p. PROC_STATE_STOPPED)\<rparr>"

definition sigFaultEnv :: env where
  "sigFaultEnv = demoEnv\<lparr>cgrp_SendSig := SendSigFault\<rparr>"

text \<open>The same with a second process that fails to start.\<close>

definition startFailEnv :: env where
  "startFailEnv =
     demoEnv\<lparr>proc_Start := (\<lambda>p. if p = 1 then LE_FAULT else LE_OK),
             proc_GetState := (\<lambda>p. if p = 1 then PROC_STATE_STOPPED else PROC_STATE_RUNNING)\<rparr>"

text \<open>The same with an app-level watchdog action string that names no action.\<close>

definition badActionEnv :: env where
  "badActionEnv = demoEnv\<lparr>cfg_watchdogAction := (LE_OK, ''bogus'')\<rparr>"

text \<open>The same with an app-level watchdog action string too long for the buffer.\<close>

definition longActionEnv :: env where
  "longActionEnv = demoEnv\<lparr>cfg_watchdogAction := (LE_OVERFLOW, ''restartAppAndThen'')\<rparr>"

text \<open>The same with a \<^verbatim>\<open>/tmp\<close> that cannot be mounted.\<close>

definition tmpFailEnv :: env where
  "tmpFailEnv = demoEnv\<lparr>CreateTmpFs := LE_FAULT\<rparr>"

text \<open>An unsandboxed app with two configured processes, stopped and running.\<close>

definition stoppedApp :: App where
  "stoppedApp =
     \<lparr>name = ''gps'', cfgPathRoot = ''/apps/gps'', sandboxed = False,
      installDirPath = ''/legato/systems/current/apps/gps'',
      workingDir = ''/legato/systems/current/appsWriteable/gps'',
      uid = 0, gid = 0, supplementGids = [0, 0, 0, 0], numSupplementGids = 0,
      state = APP_STATE_STOPPED,
      procs = [\<lparr>procRef = 0, stopHandler = None, externStopHandler = None, externContextPtr = 0\<rparr>,
               \<lparr>procRef = 1, stopHandler = None, externStopHandler = None, externContextPtr = 0\<rparr>],
      auxProcs = [], killTimer = None\<rparr>"

text \<open>The same two processes in a sandboxed app.\<close>

definition sandboxedApp :: App where
  "sandboxedApp = stoppedApp\<lparr>sandboxed := True, uid := 1001, gid := 1001\<rparr>"

definition runningApp :: App where
  "runningApp = stoppedApp\<lparr>state := APP_STATE_RUNNING\<rparr>"

text \<open>The running app after a stop request that found a process to signal.\<close>

definition killPendingApp :: App where
  "killPendingApp = runningApp\<lparr>killTimer := Some (le_timer_Start (newKillTimer runningApp))\<rparr>"

text \<open>
  An identity service that knows every app and creates every group, with group ids
  derived from the length of the group's name, and a config with no \<^verbatim>\<open>groups\<close>
  children; the bound on supplementary groups is four.
\<close>

definition demoIdent :: identEnv where
  "demoIdent =
     \<lparr>user_AppNameToUserName = (\<lambda>n. (LE_OK, ''app'' @ n)),
      user_GetIDs = (\<lambda>u. (LE_OK, 1001, 1001)),
      user_CreateGroup = (\<lambda>g. (LE_OK, of_nat (2000 + length g))),
      cfg_groups = [],
      LIMIT_MAX_NUM_SUPPLEMENTARY_GROUPS = 4\<rparr>"

text \<open>
  Stand-ins for the path module, used in examples only: the segments are appended to
  the buffer as they are, and the result is cut when it does not fit; the basename is
  what follows the last separator character.
\<close>

definition demoConcat :: "string \<Rightarrow> string \<Rightarrow> nat \<Rightarrow> string list \<Rightarrow> le_result \<times> string" where
  "demoConcat sep buf bufSize segs =
     (if length (buf @ concat segs) < bufSize then (LE_OK, buf @ concat segs)
      else (LE_OVERFLOW, take (bufSize - 1) (buf @ concat segs)))"

definition demoBasename :: "string \<Rightarrow> string \<Rightarrow> string" where
  "demoBasename path sep = rev (takeWhile (\<lambda>c. [c] \<noteq> sep) (rev path))"

text \<open>
  Two thread objects: a joinable one (reference 1, at address 10, handle 77) and a
  detached one (reference 2, at address 11, handle 78). \<open>demoJoin\<close> is an operating
  system that refuses a join of the caller with itself as a deadlock, lets any other
  thread join thread 77, which has ended, and knows no other joinable thread.
\<close>

definition demoThreads :: thread_module where
  "demoThreads =
     \<lparr>ThreadRefMap = [1 \<mapsto> 10, 2 \<mapsto> 11],
      ThreadObjList = [10, 11],
      ThreadObjListChangeCount = 2,
      ThreadPool =
        [10 \<mapsto> \<lparr>thr_name = ''worker'', isJoinable = True, thr_state = THREAD_STATE_RUNNING,
                 threadHandle = 77, safeRef = 1\<rparr>,
         11 \<mapsto> \<lparr>thr_name = ''logger'', isJoinable = False, thr_state = THREAD_STATE_RUNNING,
                 threadHandle = 78, safeRef = 2\<rparr>]\<rparr>"

definition demoJoin :: "nat \<Rightarrow> nat \<Rightarrow> join_errno" where
  "demoJoin self h = (if h = self then EDEADLK else if h = 77 then JOIN_0 else ESRCH)"

text \<open>A sandboxed app with two supplementary groups stored in an array of four.\<close>

definition twoGroupsApp :: App where
  "twoGroupsApp =
     \<lparr>name = ''radio'', cfgPathRoot = ''/apps/radio'', sandboxed = True,
      installDirPath = ''/legato/systems/current/apps/radio'',
      workingDir = ''/legato/systems/current/appsWriteable/radio'',
      uid = 1001, gid = 1001, supplementGids = [7, 9, 0, 0], numSupplementGids = 2,
      state = APP_STATE_STOPPED, procs = [], auxProcs = [], killTimer = None\<rparr>"

section \<open>Verified properties\<close>

subsection \<open>Reading the supplementary groups\<close>

lemma copyGids_length: "length (copyGids i n src dst) = length dst"
proof (induction i n src dst rule: copyGids.induct)
  case (1 i n src dst)
  then show ?case by (subst copyGids.simps) simp
qed

lemma copyGids_nth:
  "j < length dst \<Longrightarrow>
   copyGids i n src dst ! j = (if i \<le> j \<and> j < n then src ! j else dst ! j)"
proof (induction i n src dst rule: copyGids.induct)
  case (1 i n src dst)
  show ?case
  proof (cases "i < n")
    case True
    have "copyGids i n src dst ! j = copyGids (Suc i) n src (dst[i := src ! i]) ! j"
      using True by (subst copyGids.simps) simp
    also have "\<dots> = (if Suc i \<le> j \<and> j < n then src ! j else dst[i := src ! i] ! j)"
      using "1.IH" [OF True] "1.prems" by simp
    also have "\<dots> = (if i \<le> j \<and> j < n then src ! j else dst ! j)"
      using True "1.prems" by (cases "i = j") auto
    finally show ?thesis .
  next
    case False
    then show ?thesis by (subst copyGids.simps) auto
  qed
qed

lemma copyGids_prefix:
  assumes "n \<le> length src" and "n \<le> length dst"
  shows "copyGids 0 n src dst = take n src @ drop n dst"
proof (rule nth_equalityI)
  show "length (copyGids 0 n src dst) = length (take n src @ drop n dst)"
    using assms by (simp add: copyGids_length)
next
  fix j
  assume "j < length (copyGids 0 n src dst)"
  then have j: "j < length dst" by (simp add: copyGids_length)
  show "copyGids 0 n src dst ! j = (take n src @ drop n dst) ! j"
    using j assms by (simp add: copyGids_nth nth_append)
qed

text \<open>
  C10. For an app whose stored count fits its array and a caller's buffer that is as
  long as the capacity passed in: with a capacity of at least \<open>numSupplementGids\<close>
  every stored gid is copied to the front of the buffer, the count is set to
  \<open>numSupplementGids\<close> and the result is \<open>LE_OK\<close>; with a smaller capacity only the
  first capacity-many gids are copied, the count is still set to the full
  \<open>numSupplementGids\<close>, which then exceeds the capacity, and the result is
  \<open>LE_OVERFLOW\<close>.
\<close>

theorem app_GetSupplementaryGroups_spec:
  assumes "numSupplementGids appRef \<le> length (supplementGids appRef)"
    and "numGroups \<le> length groups"
  shows "(numSupplementGids appRef \<le> numGroups \<longrightarrow>
            app_GetSupplementaryGroups appRef groups numGroups =
              Some (LE_OK,
                    take (numSupplementGids appRef) (supplementGids appRef)
                      @ drop (numSupplementGids appRef) groups,
                    numSupplementGids appRef))
       \<and> (numGroups < numSupplementGids appRef \<longrightarrow>
            app_GetSupplementaryGroups appRef groups numGroups =
              Some (LE_OVERFLOW,
                    take numGroups (supplementGids appRef) @ drop numGroups groups,
                    numSupplementGids appRef))"
proof (cases "numSupplementGids appRef \<le> numGroups")
  case True
  then have "numSupplementGids appRef \<le> length groups" using assms(2) by simp
  then show ?thesis
    using True assms(1) by (simp add: app_GetSupplementaryGroups_def copyGids_prefix)
next
  case False
  then have "numGroups \<le> length (supplementGids appRef)" using assms(1) by simp
  then show ?thesis
    using False assms(2) by (simp add: app_GetSupplementaryGroups_def copyGids_prefix)
qed

theorem app_GetSupplementaryGroups_spec_witness:
  "numSupplementGids twoGroupsApp \<le> length (supplementGids twoGroupsApp)
   \<and> 3 \<le> length [0, 0, 0 :: gid_t]
   \<and> app_GetSupplementaryGroups twoGroupsApp [0, 0, 0] 3 = Some (LE_OK, [7, 9, 0], 2)
   \<and> 1 \<le> length [0 :: gid_t]
   \<and> app_GetSupplementaryGroups twoGroupsApp [0] 1 = Some (LE_OVERFLOW, [7], 2)"
  using app_GetSupplementaryGroups_spec [of twoGroupsApp 3 "[0, 0, 0]"]
    app_GetSupplementaryGroups_spec [of twoGroupsApp 1 "[0]"]
  by (simp add: twoGroupsApp_def)

subsection \<open>Kill escalation\<close>

text \<open>The busy-wait ends as soon as one poll answers something other than thawed.\<close>

lemma WaitFrozen_ends:
  "getState (i + k) \<noteq> CGRP_THAWED \<Longrightarrow> \<exists>n. WaitFrozen getState i = Some n"
proof (induction k arbitrary: i)
  case 0
  then show ?case
    by (subst WaitFrozen.simps) (cases "getState i"; simp)
next
  case (Suc k)
  show ?case
  proof (cases "getState i = CGRP_THAWED")
    case True
    have "getState (Suc i + k) \<noteq> CGRP_THAWED" using Suc.prems by simp
    from Suc.IH [OF this] obtain n where "WaitFrozen getState (Suc i) = Some n" ..
    then show ?thesis using True by (subst WaitFrozen.simps) simp
  next
    case False
    then show ?thesis by (subst WaitFrozen.simps) (cases "getState i"; simp)
  qed
qed

lemma WaitFrozen_now:
  "getState i \<noteq> CGRP_THAWED \<Longrightarrow> WaitFrozen getState i = Some (Suc i)"
  by (subst WaitFrozen.simps) (cases "getState i"; simp)

text \<open>
  Conversely the busy-wait only ends on such a poll: when every poll answers thawed it
  never ends.
\<close>

lemma WaitFrozen_Some:
  assumes "WaitFrozen getState i = Some n"
  shows "\<exists>k. getState k \<noteq> CGRP_THAWED"
proof (rule WaitFrozen.raw_induct [where P = "\<lambda>g i n. \<exists>k. g k \<noteq> CGRP_THAWED", OF _ assms])
  fix f g j y
  assume IH: "\<And>g j y. f g j = Some y \<Longrightarrow> \<exists>k. g k \<noteq> CGRP_THAWED"
    and step: "(if g j = CGRP_FROZEN then Some (Suc j)
                else if g j = CGRP_STATE_LE_FAULT then Some (Suc j)
                else f g (Suc j)) = Some y"
  show "\<exists>k. g k \<noteq> CGRP_THAWED"
  proof (cases "g j = CGRP_THAWED")
    case True
    with step have "f g (Suc j) = Some y" by simp
    then show ?thesis by (rule IH)
  next
    case False
    then show ?thesis by blast
  qed
qed

lemma WaitFrozen_never:
  "(\<forall>k. getState k = CGRP_THAWED) \<Longrightarrow> WaitFrozen getState i = None"
  using WaitFrozen_Some [of getState i] by (cases "WaitFrozen getState i") auto

lemma FreezeApp_returns:
  assumes "cgrp_frz_Freeze e \<noteq> LE_OK \<or> (\<exists>n. cgrp_frz_GetState e n \<noteq> CGRP_THAWED)"
  shows "\<exists>tr. FreezeApp e nm = Some tr"
proof (cases "cgrp_frz_Freeze e = LE_OK")
  case True
  with assms obtain n where "cgrp_frz_GetState e (0 + n) \<noteq> CGRP_THAWED" by auto
  from WaitFrozen_ends [of "cgrp_frz_GetState e" 0 n, OF this] obtain k where "WaitFrozen (cgrp_frz_GetState e) 0 = Some k" ..
  then show ?thesis using True by (simp add: FreezeApp_def)
next
  case False
  then show ?thesis by (simp add: FreezeApp_def)
qed

lemma FreezeApp_demo: "cgrp_frz_Freeze e = LE_OK \<Longrightarrow> cgrp_frz_GetState e 0 \<noteq> CGRP_THAWED \<Longrightarrow>
   FreezeApp e nm = Some [EvCgrpFreeze nm, EvCgrpGetState nm]"
  by (simp add: FreezeApp_def WaitFrozen_now)

lemma KillAppProcs_Signalled:
  assumes "FreezeApp e (name a) = Some tr0" and "cgrp_SendSig e = Signalled n"
  shows "KillAppProcs e a kt =
           Some (if n = 0 then LE_NOT_FOUND else LE_OK,
                 a\<lparr>procs := fst (TellStopping e (procs a))\<rparr>,
                 tr0 @ snd (TellStopping e (procs a))
                   @ [EvCgrpSendSig CGRP_SUBSYS_FREEZE (name a) (killSig kt),
                      EvCgrpThaw (name a)])"
  using assms by (simp add: KillAppProcs_def Let_def split: prod.splits)

lemma KillAppProcs_Fault:
  assumes "FreezeApp e (name a) = Some tr0" and "cgrp_SendSig e = SendSigFault"
  shows "KillAppProcs e a kt =
           Some (LE_NOT_FOUND,
                 a\<lparr>procs := fst (TellStopping e (procs a))\<rparr>,
                 tr0 @ snd (TellStopping e (procs a))
                   @ [EvCgrpSendSig CGRP_SUBSYS_FREEZE (name a) (killSig kt)])"
  using assms by (simp add: KillAppProcs_def Let_def split: prod.splits)

lemma KillAppProcs_keeps:
  assumes "KillAppProcs e a kt = Some (r, a1, tr)"
  shows "state a1 = state a \<and> killTimer a1 = killTimer a \<and> name a1 = name a"
  using assms
  by (auto simp: KillAppProcs_def Let_def split: option.splits prod.splits sendsig_result.splits)

lemma KillAppProcs_NOT_FOUND:
  assumes "KillAppProcs e a kt = Some (r, a1, tr)"
  shows "r = LE_NOT_FOUND \<longleftrightarrow> (cgrp_SendSig e = Signalled 0 \<or> cgrp_SendSig e = SendSigFault)"
  using assms
  by (auto simp: KillAppProcs_def Let_def split: option.splits prod.splits sendsig_result.splits if_splits)

lemma KillAppProcs_returns:
  assumes "cgrp_frz_Freeze e \<noteq> LE_OK \<or> (\<exists>n. cgrp_frz_GetState e n \<noteq> CGRP_THAWED)"
  shows "\<exists>r a1 tr. KillAppProcs e a kt = Some (r, a1, tr)"
proof -
  from FreezeApp_returns [OF assms] obtain tr0 where f: "FreezeApp e (name a) = Some tr0" ..
  show ?thesis
  proof (cases "cgrp_SendSig e")
    case (Signalled n)
    then show ?thesis using KillAppProcs_Signalled [OF f Signalled] by blast
  next
    case SendSigFault
    then show ?thesis using KillAppProcs_Fault [OF f SendSigFault] by blast
  qed
qed

text \<open>
  C4 (amended). Provided the busy-wait on the freeze state ends (the freeze request fails,
  or some poll answers frozen or error), \<^verbatim>\<open>KillAppProcs\<close> returns, and the last call
  before the thaw is the broadcast to the freeze subsystem of the app's group:
  \<^verbatim>\<open>SIGTERM\<close> for a soft kill, \<^verbatim>\<open>SIGKILL\<close> for a hard kill. When the broadcast
  reports a number of processes, the cgroup is thawed next and the result is
  \<^verbatim>\<open>LE_NOT_FOUND\<close> exactly when that number is zero, \<^verbatim>\<open>LE_OK\<close> otherwise. When the
  broadcast itself fails, the result is \<^verbatim>\<open>LE_NOT_FOUND\<close>.
\<close>

theorem KillAppProcs_spec:
  assumes "cgrp_frz_Freeze e \<noteq> LE_OK \<or> (\<exists>n. cgrp_frz_GetState e n \<noteq> CGRP_THAWED)"
  shows "\<exists>tr0. FreezeApp e (name a) = Some tr0
     \<and> (\<forall>n. cgrp_SendSig e = Signalled n \<longrightarrow>
           KillAppProcs e a kt =
             Some (if n = 0 then LE_NOT_FOUND else LE_OK,
                   a\<lparr>procs := fst (TellStopping e (procs a))\<rparr>,
                   tr0 @ snd (TellStopping e (procs a))
                     @ [EvCgrpSendSig CGRP_SUBSYS_FREEZE (name a)
                          (case kt of KILL_SOFT \<Rightarrow> SIGTERM | KILL_HARD \<Rightarrow> SIGKILL),
                        EvCgrpThaw (name a)]))
     \<and> (cgrp_SendSig e = SendSigFault \<longrightarrow>
           (\<exists>tr. KillAppProcs e a kt =
                   Some (LE_NOT_FOUND, a\<lparr>procs := fst (TellStopping e (procs a))\<rparr>, tr)))"
proof -
  from FreezeApp_returns [OF assms] obtain tr0 where f: "FreezeApp e (name a) = Some tr0" ..
  have k: "killSig kt = (case kt of KILL_SOFT \<Rightarrow> SIGTERM | KILL_HARD \<Rightarrow> SIGKILL)"
    by (cases kt) (simp_all add: killSig_def)
  show ?thesis
    using f KillAppProcs_Signalled [OF f, where kt = kt] KillAppProcs_Fault [OF f, where kt = kt] k
    by auto
qed

theorem KillAppProcs_spec_witness:
  "cgrp_frz_GetState demoEnv 0 = CGRP_FROZEN
   \<and> cgrp_SendSig demoEnv = Signalled 1
   \<and> KillAppProcs demoEnv runningApp KILL_HARD =
       Some (LE_OK, runningApp,
             [EvCgrpFreeze ''gps'', EvCgrpGetState ''gps'', EvProcStopping 0, EvProcStopping 1,
              EvCgrpSendSig CGRP_SUBSYS_FREEZE ''gps'' SIGKILL, EvCgrpThaw ''gps''])"
proof -
  have h: "cgrp_frz_Freeze demoEnv \<noteq> LE_OK \<or> (\<exists>n. cgrp_frz_GetState demoEnv n \<noteq> CGRP_THAWED)"
    by (simp add: demoEnv_def)
  have f: "FreezeApp demoEnv ''gps'' = Some [EvCgrpFreeze ''gps'', EvCgrpGetState ''gps'']"
    by (rule FreezeApp_demo) (simp_all add: demoEnv_def)
  have n: "name runningApp = ''gps''" by (simp add: runningApp_def stoppedApp_def)
  have t: "TellStopping demoEnv (procs runningApp) = (procs runningApp, [EvProcStopping 0, EvProcStopping 1])"
    by (simp add: runningApp_def stoppedApp_def demoEnv_def)
  have s: "cgrp_SendSig demoEnv = Signalled 1" by (simp add: demoEnv_def)
  have g: "cgrp_frz_GetState demoEnv 0 = CGRP_FROZEN" by (simp add: demoEnv_def)
  from KillAppProcs_spec [OF h, of runningApp KILL_HARD] show ?thesis
    using g f n t s by simp
qed

text \<open>
  C4 as stated fails when the broadcast fails: the function returns \<^verbatim>\<open>LE_NOT_FOUND\<close>
  right after the broadcast, and the cgroup, frozen by then, is not thawed.
\<close>

theorem KillAppProcs_fault_counterexample:
  "KillAppProcs sigFaultEnv runningApp KILL_SOFT =
     Some (LE_NOT_FOUND, runningApp,
           [EvCgrpFreeze ''gps'', EvCgrpGetState ''gps'', EvProcStopping 0, EvProcStopping 1,
            EvCgrpSendSig CGRP_SUBSYS_FREEZE ''gps'' SIGTERM])"
proof -
  have f: "FreezeApp sigFaultEnv (name runningApp) = Some [EvCgrpFreeze ''gps'', EvCgrpGetState ''gps'']"
    by (simp add: FreezeApp_demo sigFaultEnv_def demoEnv_def runningApp_def stoppedApp_def)
  have s: "cgrp_SendSig sigFaultEnv = SendSigFault" by (simp add: sigFaultEnv_def)
  show ?thesis
    unfolding KillAppProcs_Fault [OF f s]
    by (simp add: runningApp_def stoppedApp_def sigFaultEnv_def demoEnv_def killSig_def)
qed

subsection \<open>Stopping an app\<close>

text \<open>
  The kill timer that \<^verbatim>\<open>app_Stop\<close> creates is a stopped one-shot timer of one second
  whose expiry runs the hard kill of the app.
\<close>

lemma newKillTimer_settings:
  "tmInterval (newKillTimer appRef) = Some (1, 0)
   \<and> tmRepeatCount (newKillTimer appRef) = 1
   \<and> tmHandler (newKillTimer appRef) = Some HardKillApp
   \<and> tmContext (newKillTimer appRef) = Some (name appRef)
   \<and> \<not> tmRunning (newKillTimer appRef)"
  by (simp add: newKillTimer_def le_timer_Create_def KillTimeout_def)

text \<open>
  A stop request on a running app does not return when the freeze request succeeds and
  the freeze state stays thawed for ever.
\<close>

lemma app_Stop_never:
  assumes "state a = APP_STATE_RUNNING" and "cgrp_frz_Freeze e = LE_OK"
    and "\<forall>k. cgrp_frz_GetState e k = CGRP_THAWED"
  shows "app_Stop e a = None"
  using assms WaitFrozen_never [of "cgrp_frz_GetState e" 0]
  by (simp add: app_Stop_def KillAppProcs_def FreezeApp_def)

text \<open>
  What holds of a stop request. For an app in state running, provided the busy-wait on
  the freeze state ends, \<^verbatim>\<open>app_Stop\<close> returns after a soft kill. When the kill reports
  \<^verbatim>\<open>LE_NOT_FOUND\<close>, which it does exactly when the broadcast signalled no process or
  failed, the state is set to stopped. Otherwise the state stays running and the kill
  timer is started, after being created as a one-shot timer with the one-second
  interval, the app as context and the hard-kill handler when the app had none. If the
  kill timer was not armed when \<^verbatim>\<open>app_Stop\<close> was called, then after it returns the
  timer is armed exactly when the broadcast signalled at least one process.
\<close>

theorem app_Stop_running:
  assumes "state a = APP_STATE_RUNNING"
    and "cgrp_frz_Freeze e \<noteq> LE_OK \<or> (\<exists>n. cgrp_frz_GetState e n \<noteq> CGRP_THAWED)"
  shows "\<exists>r a1 tr. KillAppProcs e a KILL_SOFT = Some (r, a1, tr)
     \<and> (r = LE_NOT_FOUND \<longleftrightarrow> (cgrp_SendSig e = Signalled 0 \<or> cgrp_SendSig e = SendSigFault))
     \<and> (r = LE_NOT_FOUND \<longrightarrow> app_Stop e a = Some (a1\<lparr>state := APP_STATE_STOPPED\<rparr>, tr))
     \<and> (r \<noteq> LE_NOT_FOUND \<longrightarrow>
          app_Stop e a =
            Some (a1\<lparr>killTimer :=
                      Some (le_timer_Start
                              (case killTimer a of None \<Rightarrow> newKillTimer a | Some t \<Rightarrow> t))\<rparr>, tr)
          \<and> state a1 = APP_STATE_RUNNING
          \<and> armed (a1\<lparr>killTimer :=
                      Some (le_timer_Start
                              (case killTimer a of None \<Rightarrow> newKillTimer a | Some t \<Rightarrow> t))\<rparr>))
     \<and> (\<not> armed a \<longrightarrow>
          (\<exists>a2. app_Stop e a = Some (a2, tr)
             \<and> (armed a2 \<longleftrightarrow> (\<exists>n. cgrp_SendSig e = Signalled (Suc n)))))"
proof -
  from KillAppProcs_returns [OF assms(2)] obtain r a1 tr
    where k: "KillAppProcs e a KILL_SOFT = Some (r, a1, tr)" by blast
  note keep = KillAppProcs_keeps [OF k]
  note nf = KillAppProcs_NOT_FOUND [OF k]
  have nk: "newKillTimer a1 = newKillTimer a" using keep by (simp add: newKillTimer_def)
  let ?t = "le_timer_Start (case killTimer a of None \<Rightarrow> newKillTimer a | Some t \<Rightarrow> t)"
  have stop_nf: "r = LE_NOT_FOUND \<Longrightarrow> app_Stop e a = Some (a1\<lparr>state := APP_STATE_STOPPED\<rparr>, tr)"
    using assms(1) k by (simp add: app_Stop_def)
  have stop_ok: "r \<noteq> LE_NOT_FOUND \<Longrightarrow> app_Stop e a = Some (a1\<lparr>killTimer := Some ?t\<rparr>, tr)"
    using assms(1) k keep nk by (simp add: app_Stop_def Let_def split: option.splits)
  have arm: "armed (a1\<lparr>killTimer := Some ?t\<rparr>)"
    by (simp add: armed_def le_timer_Start_def)
  have unarmed: "\<not> armed a \<Longrightarrow> \<not> armed (a1\<lparr>state := APP_STATE_STOPPED\<rparr>)"
    using keep by (simp add: armed_def)
  have pos: "r \<noteq> LE_NOT_FOUND \<longleftrightarrow> (\<exists>n. cgrp_SendSig e = Signalled (Suc n))"
    using nf by (cases "cgrp_SendSig e") (auto simp: gr0_conv_Suc dest: not0_implies_Suc)
  have last: "\<not> armed a \<longrightarrow>
          (\<exists>a2. app_Stop e a = Some (a2, tr)
             \<and> (armed a2 \<longleftrightarrow> (\<exists>n. cgrp_SendSig e = Signalled (Suc n))))"
  proof (cases "r = LE_NOT_FOUND")
    case True
    then show ?thesis using stop_nf unarmed pos by auto
  next
    case False
    then show ?thesis using stop_ok arm pos by auto
  qed
  show ?thesis
    using k nf stop_nf stop_ok arm keep assms(1) last by auto
qed

theorem app_Stop_running_witness:
  "state runningApp = APP_STATE_RUNNING
   \<and> cgrp_frz_GetState demoEnv 0 = CGRP_FROZEN
   \<and> cgrp_SendSig demoEnv = Signalled 1
   \<and> \<not> armed runningApp
   \<and> (\<exists>a2 tr. app_Stop demoEnv runningApp = Some (a2, tr) \<and> state a2 = APP_STATE_RUNNING \<and> armed a2)"
proof -
  have h1: "state runningApp = APP_STATE_RUNNING" by (simp add: runningApp_def)
  have h2: "cgrp_frz_Freeze demoEnv \<noteq> LE_OK \<or> (\<exists>n. cgrp_frz_GetState demoEnv n \<noteq> CGRP_THAWED)"
    by (simp add: demoEnv_def)
  have h3: "\<not> armed runningApp" by (simp add: armed_def runningApp_def stoppedApp_def)
  have s: "cgrp_SendSig demoEnv = Signalled (Suc 0)" by (simp add: demoEnv_def)
  from app_Stop_running [OF h1 h2] obtain r a1 tr where
    k: "KillAppProcs demoEnv runningApp KILL_SOFT = Some (r, a1, tr)"
    and nf: "r = LE_NOT_FOUND \<longleftrightarrow> (cgrp_SendSig demoEnv = Signalled 0 \<or> cgrp_SendSig demoEnv = SendSigFault)"
    and ok: "r \<noteq> LE_NOT_FOUND \<longrightarrow>
          app_Stop demoEnv runningApp =
            Some (a1\<lparr>killTimer :=
                      Some (le_timer_Start
                              (case killTimer runningApp of None \<Rightarrow> newKillTimer runningApp | Some t \<Rightarrow> t))\<rparr>, tr)
          \<and> state a1 = APP_STATE_RUNNING
          \<and> armed (a1\<lparr>killTimer :=
                      Some (le_timer_Start
                              (case killTimer runningApp of None \<Rightarrow> newKillTimer runningApp | Some t \<Rightarrow> t))\<rparr>)"
    by blast
  have g: "cgrp_frz_GetState demoEnv 0 = CGRP_FROZEN" by (simp add: demoEnv_def)
  have "r \<noteq> LE_NOT_FOUND" using nf s by simp
  with ok show ?thesis using h1 g s h3 by auto
qed

text \<open>
  A stop request made while a process is still alive leaves the app running with the
  kill timer armed.
\<close>

lemma app_Stop_first:
  "app_Stop demoEnv runningApp =
     Some (killPendingApp,
           [EvCgrpFreeze ''gps'', EvCgrpGetState ''gps'', EvProcStopping 0, EvProcStopping 1,
            EvCgrpSendSig CGRP_SUBSYS_FREEZE ''gps'' SIGTERM, EvCgrpThaw ''gps''])"
proof -
  have f: "FreezeApp demoEnv (name runningApp) = Some [EvCgrpFreeze ''gps'', EvCgrpGetState ''gps'']"
    by (simp add: FreezeApp_demo demoEnv_def runningApp_def stoppedApp_def)
  have s: "cgrp_SendSig demoEnv = Signalled 1" by (simp add: demoEnv_def)
  show ?thesis
    unfolding app_Stop_def KillAppProcs_Signalled [OF f s]
    by (simp add: runningApp_def stoppedApp_def demoEnv_def killSig_def killPendingApp_def
        newKillTimer_def)
qed

text \<open>
  C1. After a stop request on a running app the kill timer is to be armed exactly when
  the soft kill was issued and the freeze group was not yet empty. The code breaks this
  on a second stop request: the first one, made while a process is alive, leaves the
  app running with the timer armed; the second one, made when the freeze group has
  become empty in between, sets the state to stopped and leaves the timer armed, because
  \<^verbatim>\<open>app_Stop\<close> never stops it, where \<^verbatim>\<open>app_SigChildHandler\<close> stops the timer
  before it sets that state. The app can then be started again with the old timer still
  armed, whose expiry hard-kills the new processes.
\<close>

theorem app_Stop_leaves_timer_armed:
  "state runningApp = APP_STATE_RUNNING
   \<and> \<not> armed runningApp
   \<and> app_Stop demoEnv runningApp =
       Some (killPendingApp,
             [EvCgrpFreeze ''gps'', EvCgrpGetState ''gps'', EvProcStopping 0, EvProcStopping 1,
              EvCgrpSendSig CGRP_SUBSYS_FREEZE ''gps'' SIGTERM, EvCgrpThaw ''gps''])
   \<and> state killPendingApp = APP_STATE_RUNNING
   \<and> armed killPendingApp
   \<and> cgrp_SendSig emptyGroupEnv = Signalled 0
   \<and> app_Stop emptyGroupEnv killPendingApp =
       Some (killPendingApp\<lparr>state := APP_STATE_STOPPED\<rparr>,
             [EvCgrpFreeze ''gps'', EvCgrpGetState ''gps'',
              EvCgrpSendSig CGRP_SUBSYS_FREEZE ''gps'' SIGTERM, EvCgrpThaw ''gps''])
   \<and> armed (killPendingApp\<lparr>state := APP_STATE_STOPPED\<rparr>)
   \<and> app_Start demoEnv (killPendingApp\<lparr>state := APP_STATE_STOPPED\<rparr>) =
       Some (LE_OK, killPendingApp, [EvProcStart 0, EvProcStart 1])"
proof -
  have f: "FreezeApp emptyGroupEnv (name killPendingApp) = Some [EvCgrpFreeze ''gps'', EvCgrpGetState ''gps'']"
    by (simp add: FreezeApp_demo emptyGroupEnv_def demoEnv_def killPendingApp_def runningApp_def stoppedApp_def)
  have s: "cgrp_SendSig emptyGroupEnv = Signalled 0" by (simp add: emptyGroupEnv_def)
  have st0: "state runningApp = APP_STATE_RUNNING \<and> \<not> armed runningApp"
    by (simp add: armed_def runningApp_def stoppedApp_def)
  have st: "state killPendingApp = APP_STATE_RUNNING"
    by (simp add: killPendingApp_def runningApp_def)
  have a0: "armed killPendingApp"
    by (simp add: armed_def killPendingApp_def le_timer_Start_def)
  have a: "armed (killPendingApp\<lparr>state := APP_STATE_STOPPED\<rparr>)"
    by (simp add: armed_def killPendingApp_def le_timer_Start_def)
  have second: "app_Stop emptyGroupEnv killPendingApp =
       Some (killPendingApp\<lparr>state := APP_STATE_STOPPED\<rparr>,
             [EvCgrpFreeze ''gps'', EvCgrpGetState ''gps'',
              EvCgrpSendSig CGRP_SUBSYS_FREEZE ''gps'' SIGTERM, EvCgrpThaw ''gps''])"
    unfolding app_Stop_def KillAppProcs_Signalled [OF f s]
    by (simp add: killPendingApp_def runningApp_def stoppedApp_def emptyGroupEnv_def demoEnv_def killSig_def)
  have restart: "app_Start demoEnv (killPendingApp\<lparr>state := APP_STATE_STOPPED\<rparr>) =
       Some (LE_OK, killPendingApp, [EvProcStart 0, EvProcStart 1])"
    by (simp add: app_Start_def killPendingApp_def runningApp_def stoppedApp_def demoEnv_def)
  show ?thesis using st0 app_Stop_first st a0 s second a restart by simp
qed

subsection \<open>Starting an app\<close>

lemma StartProcs_all:
  "(\<forall>c \<in> set cs. proc_Start e (procRef c) = LE_OK) \<Longrightarrow>
     StartProcs e cs = (True, map (\<lambda>c. EvProcStart (procRef c)) cs)"
  by (induction cs) auto

lemma StartProcs_fail:
  "k < length cs \<Longrightarrow> (\<forall>i<k. proc_Start e (procRef (cs ! i)) = LE_OK) \<Longrightarrow>
   proc_Start e (procRef (cs ! k)) \<noteq> LE_OK \<Longrightarrow>
     StartProcs e cs = (False, map (\<lambda>c. EvProcStart (procRef c)) (take (Suc k) cs))"
proof (induction cs arbitrary: k)
  case Nil
  then show ?case by simp
next
  case (Cons c cs)
  show ?case
  proof (cases k)
    case 0
    then show ?thesis using Cons.prems by simp
  next
    case (Suc j)
    have c: "proc_Start e (procRef c) = LE_OK" using Cons.prems(2) Suc by auto
    have j: "j < length cs" using Cons.prems(1) Suc by simp
    have pre: "\<forall>i<j. proc_Start e (procRef (cs ! i)) = LE_OK"
      using Cons.prems(2) Suc by auto
    have f: "proc_Start e (procRef (cs ! j)) \<noteq> LE_OK" using Cons.prems(3) Suc by simp
    show ?thesis using Cons.IH [OF j pre f] c Suc by simp
  qed
qed

lemma TellStopping_events:
  "snd (TellStopping e cs) =
     map (\<lambda>c. EvProcStopping (procRef c))
       (filter (\<lambda>c. proc_GetState e (procRef c) \<noteq> PROC_STATE_STOPPED) cs)"
  by (induction cs) (auto simp: Let_def split: prod.splits)

lemma KillAppProcs_covers:
  assumes "KillAppProcs e a kt = Some (r, a1, tr)"
    and "c \<in> set (procs a)" and "proc_GetState e (procRef c) \<noteq> PROC_STATE_STOPPED"
  shows "EvProcStopping (procRef c) \<in> set tr"
proof -
  have "EvProcStopping (procRef c) \<in> set (snd (TellStopping e (procs a)))"
    using assms(2,3) by (auto simp: TellStopping_events)
  moreover have "set (snd (TellStopping e (procs a))) \<subseteq> set tr"
    using assms(1)
    by (auto simp: KillAppProcs_def Let_def split: option.splits prod.splits sendsig_result.splits)
  ultimately show ?thesis by blast
qed

lemma app_Stop_covers:
  assumes "app_Stop e a = Some (a2, tr)" and "state a = APP_STATE_RUNNING"
    and "c \<in> set (procs a)" and "proc_GetState e (procRef c) \<noteq> PROC_STATE_STOPPED"
  shows "EvProcStopping (procRef c) \<in> set tr"
proof -
  from assms(1,2) obtain r a1 where "KillAppProcs e a KILL_SOFT = Some (r, a1, tr)"
    by (auto simp: app_Stop_def Let_def split: option.splits if_splits)
  from KillAppProcs_covers [OF this assms(3,4)] show ?thesis .
qed

lemma app_Stop_returns:
  assumes "cgrp_frz_Freeze e \<noteq> LE_OK \<or> (\<exists>n. cgrp_frz_GetState e n \<noteq> CGRP_THAWED)"
  shows "\<exists>a2 tr. app_Stop e a = Some (a2, tr)"
proof -
  from KillAppProcs_returns [OF assms] obtain r a1 tr
    where "KillAppProcs e a KILL_SOFT = Some (r, a1, tr)" by blast
  then show ?thesis by (auto simp: app_Stop_def Let_def)
qed

text \<open>
  C3 (amended). \<^verbatim>\<open>app_Start\<close> on a running app returns \<^verbatim>\<open>LE_FAULT\<close> with the app
  unchanged and no call made, so no process is started. On a stopped app that is
  sandboxed, \<^verbatim>\<open>/tmp\<close> is built first, and when one of the two steps of that fails the
  result is \<^verbatim>\<open>LE_FAULT\<close> and no process is started. Otherwise the configured processes
  are started in list order. When all start, the result is \<^verbatim>\<open>LE_OK\<close> and the app is
  running. When processes \<open>0\<close> to \<open>k - 1\<close> start and process \<open>k\<close> fails, no later
  process is started, \<^verbatim>\<open>app_Stop\<close> is run on the running app (provided its
  busy-wait on the freeze state ends, it returns), its calls follow the start calls,
  every process among \<open>0..k-1\<close> that the executor reports as not stopped is told that
  it is being stopped, and the result is \<^verbatim>\<open>LE_FAULT\<close>.
\<close>

theorem app_Start_spec:
  "(state a = APP_STATE_RUNNING \<longrightarrow> app_Start e a = Some (LE_FAULT, a, []))
   \<and> (state a = APP_STATE_STOPPED
        \<and> (sandboxed a \<longrightarrow> CreateTmpFs e = LE_OK \<and> CreateDefaultTmpLinks e = LE_OK) \<longrightarrow>
      ((\<forall>c \<in> set (procs a). proc_Start e (procRef c) = LE_OK) \<longrightarrow>
         app_Start e a =
           Some (LE_OK, a\<lparr>state := APP_STATE_RUNNING\<rparr>,
                 (if sandboxed a then [EvCreateTmpFs, EvCreateDefaultTmpLinks] else [])
                 @ map (\<lambda>c. EvProcStart (procRef c)) (procs a)))
      \<and> (\<forall>k. k < length (procs a)
              \<and> (\<forall>i<k. proc_Start e (procRef (procs a ! i)) = LE_OK)
              \<and> proc_Start e (procRef (procs a ! k)) \<noteq> LE_OK
              \<and> (cgrp_frz_Freeze e \<noteq> LE_OK \<or> (\<exists>n. cgrp_frz_GetState e n \<noteq> CGRP_THAWED)) \<longrightarrow>
            (\<exists>a2 tr2. app_Stop e (a\<lparr>state := APP_STATE_RUNNING\<rparr>) = Some (a2, tr2)
               \<and> app_Start e a =
                   Some (LE_FAULT, a2,
                         (if sandboxed a then [EvCreateTmpFs, EvCreateDefaultTmpLinks] else [])
                         @ map (\<lambda>c. EvProcStart (procRef c)) (take (Suc k) (procs a))
                         @ tr2)
               \<and> (\<forall>i<k. proc_GetState e (procRef (procs a ! i)) \<noteq> PROC_STATE_STOPPED \<longrightarrow>
                           EvProcStopping (procRef (procs a ! i)) \<in> set tr2))))
   \<and> (state a = APP_STATE_STOPPED \<and> sandboxed a
        \<and> (CreateTmpFs e \<noteq> LE_OK \<or> CreateDefaultTmpLinks e \<noteq> LE_OK) \<longrightarrow>
      (\<exists>a' tr. app_Start e a = Some (LE_FAULT, a', tr) \<and> (\<forall>p. EvProcStart p \<notin> set tr)))"
proof (intro conjI impI allI)
  assume "state a = APP_STATE_RUNNING"
  then show "app_Start e a = Some (LE_FAULT, a, [])" by (simp add: app_Start_def)
next
  assume pre: "state a = APP_STATE_STOPPED
        \<and> (sandboxed a \<longrightarrow> CreateTmpFs e = LE_OK \<and> CreateDefaultTmpLinks e = LE_OK)"
    and ok: "\<forall>c \<in> set (procs a). proc_Start e (procRef c) = LE_OK"
  show "app_Start e a =
           Some (LE_OK, a\<lparr>state := APP_STATE_RUNNING\<rparr>,
                 (if sandboxed a then [EvCreateTmpFs, EvCreateDefaultTmpLinks] else [])
                 @ map (\<lambda>c. EvProcStart (procRef c)) (procs a))"
    using pre StartProcs_all [OF ok] by (cases "sandboxed a") (simp_all add: app_Start_def Let_def)
next
  fix k
  assume pre: "state a = APP_STATE_STOPPED
        \<and> (sandboxed a \<longrightarrow> CreateTmpFs e = LE_OK \<and> CreateDefaultTmpLinks e = LE_OK)"
    and h: "k < length (procs a)
              \<and> (\<forall>i<k. proc_Start e (procRef (procs a ! i)) = LE_OK)
              \<and> proc_Start e (procRef (procs a ! k)) \<noteq> LE_OK
              \<and> (cgrp_frz_Freeze e \<noteq> LE_OK \<or> (\<exists>n. cgrp_frz_GetState e n \<noteq> CGRP_THAWED))"
  let ?a1 = "a\<lparr>state := APP_STATE_RUNNING\<rparr>"
  from h have fz: "cgrp_frz_Freeze e \<noteq> LE_OK \<or> (\<exists>n. cgrp_frz_GetState e n \<noteq> CGRP_THAWED)"
    by blast
  from app_Stop_returns [OF fz] obtain a2 tr2 where st: "app_Stop e ?a1 = Some (a2, tr2)"
    by blast
  have sp: "StartProcs e (procs a) =
              (False, map (\<lambda>c. EvProcStart (procRef c)) (take (Suc k) (procs a)))"
    using h by (intro StartProcs_fail) auto
  have res: "app_Start e a =
                   Some (LE_FAULT, a2,
                         (if sandboxed a then [EvCreateTmpFs, EvCreateDefaultTmpLinks] else [])
                         @ map (\<lambda>c. EvProcStart (procRef c)) (take (Suc k) (procs a))
                         @ tr2)"
    using pre sp st by (cases "sandboxed a") (simp_all add: app_Start_def Let_def)
  have cov: "\<forall>i<k. proc_GetState e (procRef (procs a ! i)) \<noteq> PROC_STATE_STOPPED \<longrightarrow>
                           EvProcStopping (procRef (procs a ! i)) \<in> set tr2"
  proof (intro allI impI)
    fix i
    assume i: "i < k" and run: "proc_GetState e (procRef (procs a ! i)) \<noteq> PROC_STATE_STOPPED"
    have "procs a ! i \<in> set (procs ?a1)" using i h by simp
    from app_Stop_covers [OF st _ this run] show "EvProcStopping (procRef (procs a ! i)) \<in> set tr2"
      by simp
  qed
  show "\<exists>a2 tr2. app_Stop e ?a1 = Some (a2, tr2)
               \<and> app_Start e a =
                   Some (LE_FAULT, a2,
                         (if sandboxed a then [EvCreateTmpFs, EvCreateDefaultTmpLinks] else [])
                         @ map (\<lambda>c. EvProcStart (procRef c)) (take (Suc k) (procs a))
                         @ tr2)
               \<and> (\<forall>i<k. proc_GetState e (procRef (procs a ! i)) \<noteq> PROC_STATE_STOPPED \<longrightarrow>
                           EvProcStopping (procRef (procs a ! i)) \<in> set tr2)"
    using st res cov by blast
next
  assume t: "state a = APP_STATE_STOPPED \<and> sandboxed a
        \<and> (CreateTmpFs e \<noteq> LE_OK \<or> CreateDefaultTmpLinks e \<noteq> LE_OK)"
  show "\<exists>a' tr. app_Start e a = Some (LE_FAULT, a', tr) \<and> (\<forall>p. EvProcStart p \<notin> set tr)"
  proof (cases "CreateTmpFs e = LE_OK")
    case True
    with t show ?thesis by (simp add: app_Start_def Let_def)
  next
    case False
    with t show ?thesis by (simp add: app_Start_def Let_def)
  qed
qed

theorem app_Start_spec_witness:
  "state stoppedApp = APP_STATE_STOPPED
   \<and> \<not> sandboxed stoppedApp
   \<and> 1 < length (procs stoppedApp)
   \<and> proc_Start startFailEnv (procRef (procs stoppedApp ! 0)) = LE_OK
   \<and> proc_Start startFailEnv (procRef (procs stoppedApp ! 1)) \<noteq> LE_OK
   \<and> cgrp_frz_GetState startFailEnv 0 = CGRP_FROZEN
   \<and> app_Start startFailEnv stoppedApp =
       Some (LE_FAULT, killPendingApp,
             [EvProcStart 0, EvProcStart 1,
              EvCgrpFreeze ''gps'', EvCgrpGetState ''gps'', EvProcStopping 0,
              EvCgrpSendSig CGRP_SUBSYS_FREEZE ''gps'' SIGTERM, EvCgrpThaw ''gps''])
   \<and> state runningApp = APP_STATE_RUNNING
   \<and> app_Start startFailEnv runningApp = Some (LE_FAULT, runningApp, [])
   \<and> state sandboxedApp = APP_STATE_STOPPED
   \<and> sandboxed sandboxedApp
   \<and> CreateTmpFs tmpFailEnv = LE_FAULT
   \<and> (\<exists>a' tr. app_Start tmpFailEnv sandboxedApp = Some (LE_FAULT, a', tr)
         \<and> EvProcStart 0 \<notin> set tr \<and> EvProcStart 1 \<notin> set tr)"
proof -
  have h1: "state stoppedApp = APP_STATE_STOPPED
     \<and> (sandboxed stoppedApp \<longrightarrow> CreateTmpFs startFailEnv = LE_OK \<and> CreateDefaultTmpLinks startFailEnv = LE_OK)"
    by (simp add: stoppedApp_def)
  have fz: "cgrp_frz_Freeze startFailEnv \<noteq> LE_OK \<or> (\<exists>n. cgrp_frz_GetState startFailEnv n \<noteq> CGRP_THAWED)"
    by (simp add: startFailEnv_def demoEnv_def)
  have h2: "1 < length (procs stoppedApp)
     \<and> (\<forall>i<1. proc_Start startFailEnv (procRef (procs stoppedApp ! i)) = LE_OK)
     \<and> proc_Start startFailEnv (procRef (procs stoppedApp ! 1)) \<noteq> LE_OK
     \<and> (cgrp_frz_Freeze startFailEnv \<noteq> LE_OK \<or> (\<exists>n. cgrp_frz_GetState startFailEnv n \<noteq> CGRP_THAWED))"
    using fz by (simp add: stoppedApp_def startFailEnv_def)
  have f: "FreezeApp startFailEnv (name runningApp) = Some [EvCgrpFreeze ''gps'', EvCgrpGetState ''gps'']"
    by (simp add: FreezeApp_demo startFailEnv_def demoEnv_def runningApp_def stoppedApp_def)
  have s: "cgrp_SendSig startFailEnv = Signalled 1" by (simp add: startFailEnv_def demoEnv_def)
  have st: "app_Stop startFailEnv (stoppedApp\<lparr>state := APP_STATE_RUNNING\<rparr>) =
     Some (killPendingApp,
           [EvCgrpFreeze ''gps'', EvCgrpGetState ''gps'', EvProcStopping 0,
            EvCgrpSendSig CGRP_SUBSYS_FREEZE ''gps'' SIGTERM, EvCgrpThaw ''gps''])"
    unfolding app_Stop_def runningApp_def [symmetric] KillAppProcs_Signalled [OF f s]
    by (simp add: runningApp_def stoppedApp_def startFailEnv_def demoEnv_def killSig_def
        killPendingApp_def newKillTimer_def)
  have h3: "state runningApp = APP_STATE_RUNNING" by (simp add: runningApp_def)
  have p: "map (\<lambda>c. EvProcStart (procRef c)) (take (Suc 1) (procs stoppedApp)) = [EvProcStart 0, EvProcStart 1]"
    by (simp add: stoppedApp_def)
  have ns: "\<not> sandboxed stoppedApp" by (simp add: stoppedApp_def)
  from app_Start_spec [of stoppedApp startFailEnv] h1 h2
  obtain a2 tr2 where
    "app_Stop startFailEnv (stoppedApp\<lparr>state := APP_STATE_RUNNING\<rparr>) = Some (a2, tr2)"
    "app_Start startFailEnv stoppedApp =
       Some (LE_FAULT, a2,
             (if sandboxed stoppedApp then [EvCreateTmpFs, EvCreateDefaultTmpLinks] else [])
             @ map (\<lambda>c. EvProcStart (procRef c)) (take (Suc 1) (procs stoppedApp)) @ tr2)"
    by blast
  then have r1: "app_Start startFailEnv stoppedApp =
       Some (LE_FAULT, killPendingApp,
             [EvProcStart 0, EvProcStart 1,
              EvCgrpFreeze ''gps'', EvCgrpGetState ''gps'', EvProcStopping 0,
              EvCgrpSendSig CGRP_SUBSYS_FREEZE ''gps'' SIGTERM, EvCgrpThaw ''gps''])"
    using st p ns by simp
  from app_Start_spec [of runningApp startFailEnv] h3
  have r2: "app_Start startFailEnv runningApp = Some (LE_FAULT, runningApp, [])" by blast
  have g: "cgrp_frz_GetState startFailEnv 0 = CGRP_FROZEN"
    by (simp add: startFailEnv_def demoEnv_def)
  have h4: "state sandboxedApp = APP_STATE_STOPPED \<and> sandboxed sandboxedApp"
    by (simp add: sandboxedApp_def stoppedApp_def)
  have h5: "CreateTmpFs tmpFailEnv = LE_FAULT" by (simp add: tmpFailEnv_def)
  from app_Start_spec [of sandboxedApp tmpFailEnv] h4 h5
  have r3: "\<exists>a' tr. app_Start tmpFailEnv sandboxedApp = Some (LE_FAULT, a', tr)
         \<and> EvProcStart 0 \<notin> set tr \<and> EvProcStart 1 \<notin> set tr"
    by auto
  show ?thesis using h1 h2 h3 r1 r2 ns g h4 h5 r3 by simp
qed

text \<open>
  C3 as stated fails for a stopped sandboxed app whose \<^verbatim>\<open>/tmp\<close> cannot be mounted:
  \<^verbatim>\<open>app_Start\<close> returns \<^verbatim>\<open>LE_FAULT\<close> after that step and starts none of the two
  configured processes.
\<close>

theorem app_Start_tmp_counterexample:
  "state sandboxedApp = APP_STATE_STOPPED
   \<and> sandboxed sandboxedApp
   \<and> map procRef (procs sandboxedApp) = [0, 1]
   \<and> CreateTmpFs tmpFailEnv = LE_FAULT
   \<and> app_Start tmpFailEnv sandboxedApp =
       Some (LE_FAULT, sandboxedApp\<lparr>state := APP_STATE_RUNNING\<rparr>, [EvCreateTmpFs])"
  by (simp add: app_Start_def sandboxedApp_def stoppedApp_def tmpFailEnv_def demoEnv_def Let_def)

subsection \<open>Finding a container\<close>

lemma FindProcContainerInList_None:
  "FindProcContainerInList e cs pid = None \<longleftrightarrow> (\<forall>c \<in> set cs. proc_GetPID e (procRef c) \<noteq> pid)"
  by (induction cs) auto

lemma FindProcContainer_None:
  "FindProcContainer e appRef pid = None \<longleftrightarrow>
     (\<forall>c \<in> set (procs appRef) \<union> set (auxProcs appRef). proc_GetPID e (procRef c) \<noteq> pid)"
proof -
  have "FindProcContainer e appRef pid = None \<longleftrightarrow>
          FindProcContainerInList e (procs appRef) pid = None
          \<and> FindProcContainerInList e (auxProcs appRef) pid = None"
    by (simp add: FindProcContainer_def split: option.splits)
  then show ?thesis by (auto simp: FindProcContainerInList_None)
qed

lemma FindProcContainerInList_Some:
  "FindProcContainerInList e cs pid = Some i \<Longrightarrow>
     i < length cs \<and> proc_GetPID e (procRef (cs ! i)) = pid"
proof (induction cs arbitrary: i)
  case Nil
  then show ?case by simp
next
  case (Cons c cs)
  then show ?case by (auto split: if_splits)
qed

lemma FindProcContainer_Some:
  assumes "FindProcContainer e appRef pid = Some ptr"
  shows "proc_GetPID e (procRef (container appRef ptr)) = pid
       \<and> stopHandler (container (setStopHandler appRef ptr h) ptr) = h
       \<and> (container appRef ptr \<in> set (procs appRef) \<union> set (auxProcs appRef))"
proof (cases "FindProcContainerInList e (procs appRef) pid")
  case None
  with assms obtain i where i: "FindProcContainerInList e (auxProcs appRef) pid = Some i"
    and p: "ptr = InAuxProcs i"
    by (auto simp: FindProcContainer_def)
  from FindProcContainerInList_Some [OF i] show ?thesis using p by simp
next
  case (Some i)
  with assms have p: "ptr = InProcs i" by (simp add: FindProcContainer_def)
  from FindProcContainerInList_Some [OF Some] show ?thesis using p by simp
qed

subsection \<open>The SIGCHLD handler\<close>

text \<open>
  C2. When no container of \<^verbatim>\<open>procs\<close> or \<^verbatim>\<open>auxProcs\<close> has the pid, the handler
  reports \<^verbatim>\<open>FAULT_ACTION_IGNORE\<close> and calls neither a stop handler nor the executor.
  In every case, when the freeze cgroup is empty after the per-process handling, the
  kill timer is stopped if there is one, so that it is not armed, and the state is set
  to stopped.
\<close>

theorem app_SigChildHandler_spec:
  "((\<forall>c \<in> set (procs appRef) \<union> set (auxProcs appRef). proc_GetPID e (procRef c) \<noteq> procPid) \<longrightarrow>
      fst (app_SigChildHandler e appRef procPid procExitStatus) = FAULT_ACTION_IGNORE
      \<and> snd (snd (app_SigChildHandler e appRef procPid procExitStatus)) = [])
   \<and> (cgrp_IsEmpty e \<longrightarrow>
        fst (snd (app_SigChildHandler e appRef procPid procExitStatus)) =
          appRef\<lparr>killTimer := map_option le_timer_Stop (killTimer appRef),
                 state := APP_STATE_STOPPED\<rparr>
        \<and> \<not> armed (fst (snd (app_SigChildHandler e appRef procPid procExitStatus)))
        \<and> state (fst (snd (app_SigChildHandler e appRef procPid procExitStatus))) = APP_STATE_STOPPED)"
proof -
  have a: "(\<forall>c \<in> set (procs appRef) \<union> set (auxProcs appRef). proc_GetPID e (procRef c) \<noteq> procPid)
        \<Longrightarrow> FindProcContainer e appRef procPid = None"
    by (simp add: FindProcContainer_None)
  have b: "FindProcContainer e appRef procPid = None \<Longrightarrow>
      fst (app_SigChildHandler e appRef procPid procExitStatus) = FAULT_ACTION_IGNORE
      \<and> snd (snd (app_SigChildHandler e appRef procPid procExitStatus)) = []"
    by (simp add: app_SigChildHandler_def Let_def)
  have c: "cgrp_IsEmpty e \<Longrightarrow>
        fst (snd (app_SigChildHandler e appRef procPid procExitStatus)) =
          appRef\<lparr>killTimer := map_option le_timer_Stop (killTimer appRef),
                 state := APP_STATE_STOPPED\<rparr>"
    by (simp add: app_SigChildHandler_def HasRunningProc_def Let_def split: prod.splits)
  have d: "\<not> armed (appRef\<lparr>killTimer := map_option le_timer_Stop (killTimer appRef),
                 state := APP_STATE_STOPPED\<rparr>)"
    by (cases "killTimer appRef") (simp_all add: armed_def le_timer_Stop_def)
  show ?thesis using a b c d by auto
qed

theorem app_SigChildHandler_spec_witness:
  "map (\<lambda>c. proc_GetPID emptyGroupEnv (procRef c)) (procs killPendingApp @ auxProcs killPendingApp)
     = [100, 101]
   \<and> cgrp_IsEmpty emptyGroupEnv
   \<and> armed killPendingApp
   \<and> app_SigChildHandler emptyGroupEnv killPendingApp 999 0 =
       (FAULT_ACTION_IGNORE,
        runningApp\<lparr>killTimer := Some (newKillTimer runningApp), state := APP_STATE_STOPPED\<rparr>,
        [])"
proof -
  have h1: "\<forall>c \<in> set (procs killPendingApp) \<union> set (auxProcs killPendingApp).
       proc_GetPID emptyGroupEnv (procRef c) \<noteq> 999"
    by (simp add: killPendingApp_def runningApp_def stoppedApp_def emptyGroupEnv_def demoEnv_def)
  have h2: "cgrp_IsEmpty emptyGroupEnv" by (simp add: emptyGroupEnv_def)
  have h3: "armed killPendingApp" by (simp add: armed_def killPendingApp_def le_timer_Start_def)
  have t: "le_timer_Stop (le_timer_Start (newKillTimer runningApp)) = newKillTimer runningApp"
    by (simp add: le_timer_Stop_def le_timer_Start_def newKillTimer_def le_timer_Create_def)
  have k: "killPendingApp\<lparr>killTimer := map_option le_timer_Stop (killTimer killPendingApp),
                 state := APP_STATE_STOPPED\<rparr> =
           runningApp\<lparr>killTimer := Some (newKillTimer runningApp), state := APP_STATE_STOPPED\<rparr>"
    by (simp add: killPendingApp_def t)
  have g: "map (\<lambda>c. proc_GetPID emptyGroupEnv (procRef c))
             (procs killPendingApp @ auxProcs killPendingApp) = [100, 101]"
    by (simp add: killPendingApp_def runningApp_def stoppedApp_def emptyGroupEnv_def demoEnv_def)
  from app_SigChildHandler_spec [of killPendingApp emptyGroupEnv 999 0] h1 h2
  have "fst (app_SigChildHandler emptyGroupEnv killPendingApp 999 0) = FAULT_ACTION_IGNORE
      \<and> snd (snd (app_SigChildHandler emptyGroupEnv killPendingApp 999 0)) = []
      \<and> fst (snd (app_SigChildHandler emptyGroupEnv killPendingApp 999 0)) =
          killPendingApp\<lparr>killTimer := map_option le_timer_Stop (killTimer killPendingApp),
                 state := APP_STATE_STOPPED\<rparr>"
    by blast
  then have "app_SigChildHandler emptyGroupEnv killPendingApp 999 0 =
       (FAULT_ACTION_IGNORE,
        runningApp\<lparr>killTimer := Some (newKillTimer runningApp), state := APP_STATE_STOPPED\<rparr>,
        [])"
    using k by (simp add: prod_eq_iff)
  then show ?thesis using g h2 h3 by simp
qed

subsection \<open>The watchdog timeout handler\<close>

text \<open>
  What holds of a watchdog timeout. When no container of the app has the pid, the
  handler returns \<^verbatim>\<open>LE_NOT_FOUND\<close>, writes no action and changes nothing. Otherwise,
  with the action resolved by falling back to the app-level config node: when it is
  \<^verbatim>\<open>WATCHDOG_ACTION_NOT_FOUND\<close>, the default restart policy is applied, that is, the
  container's \<^verbatim>\<open>stopHandler\<close> is set to the executor's start function, the process is
  stopped (marked as stopping, then killed by pid), and the action reported is
  \<^verbatim>\<open>WATCHDOG_ACTION_HANDLED\<close>.
\<close>

theorem app_WatchdogTimeoutHandler_spec:
  "((\<forall>c \<in> set (procs appRef) \<union> set (auxProcs appRef). proc_GetPID e (procRef c) \<noteq> procPid) \<longrightarrow>
      app_WatchdogTimeoutHandler e appRef procPid = (LE_NOT_FOUND, None, appRef, []))
   \<and> (\<forall>ptr. FindProcContainer e appRef procPid = Some ptr \<longrightarrow>
        proc_GetPID e (procRef (container appRef ptr)) = procPid
        \<and> (resolveWatchdogAction e (procRef (container appRef ptr)) = WATCHDOG_ACTION_NOT_FOUND \<longrightarrow>
             app_WatchdogTimeoutHandler e appRef procPid =
               (LE_OK, Some WATCHDOG_ACTION_HANDLED,
                setStopHandler appRef ptr (Some Proc_Start),
                [EvProcStopping (procRef (container appRef ptr)), EvKillHard procPid])
             \<and> stopHandler (container (setStopHandler appRef ptr (Some Proc_Start)) ptr)
                 = Some Proc_Start))"
proof (intro conjI impI allI)
  assume "\<forall>c \<in> set (procs appRef) \<union> set (auxProcs appRef). proc_GetPID e (procRef c) \<noteq> procPid"
  then have "FindProcContainer e appRef procPid = None" by (simp add: FindProcContainer_None)
  then show "app_WatchdogTimeoutHandler e appRef procPid = (LE_NOT_FOUND, None, appRef, [])"
    by (simp add: app_WatchdogTimeoutHandler_def)
next
  fix ptr
  assume f: "FindProcContainer e appRef procPid = Some ptr"
  from FindProcContainer_Some [OF f]
  show "proc_GetPID e (procRef (container appRef ptr)) = procPid" by blast
next
  fix ptr
  assume f: "FindProcContainer e appRef procPid = Some ptr"
    and r: "resolveWatchdogAction e (procRef (container appRef ptr)) = WATCHDOG_ACTION_NOT_FOUND"
  have pid: "proc_GetPID e (procRef (container appRef ptr)) = procPid"
    using FindProcContainer_Some [OF f] by blast
  show "app_WatchdogTimeoutHandler e appRef procPid =
               (LE_OK, Some WATCHDOG_ACTION_HANDLED,
                setStopHandler appRef ptr (Some Proc_Start),
                [EvProcStopping (procRef (container appRef ptr)), EvKillHard procPid])"
    using f r pid by (simp add: app_WatchdogTimeoutHandler_def Let_def StopProc_def)
next
  fix ptr
  assume f: "FindProcContainer e appRef procPid = Some ptr"
  from FindProcContainer_Some [OF f]
  show "stopHandler (container (setStopHandler appRef ptr (Some Proc_Start)) ptr) = Some Proc_Start"
    by blast
qed

theorem app_WatchdogTimeoutHandler_spec_witness:
  "map (\<lambda>c. proc_GetPID demoEnv (procRef c)) (procs runningApp @ auxProcs runningApp) = [100, 101]
   \<and> app_WatchdogTimeoutHandler demoEnv runningApp 999 = (LE_NOT_FOUND, None, runningApp, [])
   \<and> FindProcContainer demoEnv runningApp 100 = Some (InProcs 0)
   \<and> resolveWatchdogAction demoEnv (procRef (container runningApp (InProcs 0))) = WATCHDOG_ACTION_NOT_FOUND
   \<and> app_WatchdogTimeoutHandler demoEnv runningApp 100 =
       (LE_OK, Some WATCHDOG_ACTION_HANDLED,
        setStopHandler runningApp (InProcs 0) (Some Proc_Start),
        [EvProcStopping 0, EvKillHard 100])"
proof -
  have h1: "\<forall>c \<in> set (procs runningApp) \<union> set (auxProcs runningApp). proc_GetPID demoEnv (procRef c) \<noteq> 999"
    by (simp add: runningApp_def stoppedApp_def demoEnv_def)
  have h2: "FindProcContainer demoEnv runningApp 100 = Some (InProcs 0)"
    by (simp add: FindProcContainer_def runningApp_def stoppedApp_def demoEnv_def)
  have c: "procRef (container runningApp (InProcs 0)) = 0"
    by (simp add: runningApp_def stoppedApp_def)
  have h3: "resolveWatchdogAction demoEnv (procRef (container runningApp (InProcs 0))) = WATCHDOG_ACTION_NOT_FOUND"
    unfolding c by (simp add: resolveWatchdogAction_def demoEnv_def demoEnumFromString_def)
  from app_WatchdogTimeoutHandler_spec [of runningApp demoEnv 999] h1
  have r1: "app_WatchdogTimeoutHandler demoEnv runningApp 999 = (LE_NOT_FOUND, None, runningApp, [])"
    by blast
  from app_WatchdogTimeoutHandler_spec [of runningApp demoEnv 100] h2 h3
  have r2: "app_WatchdogTimeoutHandler demoEnv runningApp 100 =
       (LE_OK, Some WATCHDOG_ACTION_HANDLED,
        setStopHandler runningApp (InProcs 0) (Some Proc_Start),
        [EvProcStopping (procRef (container runningApp (InProcs 0))), EvKillHard 100])"
    by blast
  have g: "map (\<lambda>c. proc_GetPID demoEnv (procRef c)) (procs runningApp @ auxProcs runningApp)
             = [100, 101]"
    by (simp add: runningApp_def stoppedApp_def demoEnv_def)
  show ?thesis using g h2 h3 r1 r2 c by simp
qed

text \<open>
  C5. When the resolved action is \<^verbatim>\<open>WATCHDOG_ACTION_ERROR\<close> the default restart
  policy is to be applied as it is for \<^verbatim>\<open>WATCHDOG_ACTION_NOT_FOUND\<close>. The code does
  not: its case for \<^verbatim>\<open>WATCHDOG_ACTION_ERROR\<close> logs that it restarts by default and then
  only reports \<^verbatim>\<open>WATCHDOG_ACTION_HANDLED\<close>. For a process with no action of its own, in
  an app whose action string is too long to be read, or names no action, the handler
  leaves the \<^verbatim>\<open>stopHandler\<close> unset, stops nothing and changes nothing.
\<close>

theorem app_WatchdogTimeoutHandler_error_does_nothing:
  "FindProcContainer longActionEnv runningApp 100 = Some (InProcs 0)
   \<and> proc_GetWatchdogAction longActionEnv 0 = WATCHDOG_ACTION_NOT_FOUND
   \<and> fst (cfg_watchdogAction longActionEnv) = LE_OVERFLOW
   \<and> resolveWatchdogAction longActionEnv 0 = WATCHDOG_ACTION_ERROR
   \<and> app_WatchdogTimeoutHandler longActionEnv runningApp 100 =
       (LE_OK, Some WATCHDOG_ACTION_HANDLED, runningApp, [])
   \<and> resolveWatchdogAction badActionEnv 0 = WATCHDOG_ACTION_ERROR
   \<and> app_WatchdogTimeoutHandler badActionEnv runningApp 100 =
       (LE_OK, Some WATCHDOG_ACTION_HANDLED, runningApp, [])
   \<and> stopHandler (procs runningApp ! 0) = None"
  by (simp add: app_WatchdogTimeoutHandler_def FindProcContainer_def resolveWatchdogAction_def
      longActionEnv_def badActionEnv_def demoEnv_def demoEnumFromString_def runningApp_def
      stoppedApp_def Let_def)

subsection \<open>MAC rules for bindings\<close>

text \<open>
  When the \<^verbatim>\<open>bindings\<close> node has children, the rules set are, in the order of the
  children, the two rules of each child whose \<^verbatim>\<open>app\<close> string is read without error
  and is not empty, and no other rule.
\<close>

lemma BindingsLoop_rules:
  "filter isSmackSetRule (BindingsLoop L a node rest) =
     concat (map (\<lambda>n. if fst n = LE_OK \<and> snd n \<noteq> [] then bindingRules L a (snd n) else [])
               (node # rest))"
proof (induction rest arbitrary: node)
  case Nil
  show ?case by (subst BindingsLoop.simps) (simp add: bindingRules_def)
next
  case (Cons node' rest')
  show ?case
    by (subst BindingsLoop.simps) (simp add: bindingRules_def Cons.IH)
qed

lemma SetSmackRulesForBindings_rules:
  "filter isSmackSetRule (SetSmackRulesForBindings L appRef a (node # rest) staleNode staleRest) =
     concat (map (\<lambda>n. if fst n = LE_OK \<and> snd n \<noteq> [] then bindingRules L a (snd n) else [])
               (node # rest))"
  by (simp add: SetSmackRulesForBindings_def BindingsLoop_rules del: map_eq_conv)

text \<open>
  C6. For a \<^verbatim>\<open>bindings\<close> node with no children the claim asks for a return right
  after the transaction is cancelled. The code has no \<^verbatim>\<open>return\<close> there: it goes on
  into the loop, reads the \<^verbatim>\<open>app\<close> string and asks for the next sibling through the
  cancelled iterator, and cancels the transaction a second time. Here the stale read
  answers with the default, the empty string, so no rule is set.
\<close>

theorem SetSmackRulesForBindings_no_children:
  "SetSmackRulesForBindings (\<lambda>n. ''app.'' @ n) stoppedApp ''app.gps'' [] (LE_OK, []) [] =
     [CfgCreateReadTxn ''/apps/gps'', CfgGoToNode ''bindings'', CfgGoToFirstChild,
      CfgCancelTxn, CfgGetString ''app'', CfgGoToNextSibling, CfgCancelTxn]"
  by (simp add: SetSmackRulesForBindings_def BindingsLoop.simps stoppedApp_def)

subsection \<open>Identity setup\<close>

text \<open>
  What holds of the identity step: an unsandboxed app gets uid 0 and gid 0 and the
  \<^verbatim>\<open>groups\<close> config is not read for it; for a sandboxed app with at least one
  configured group, all readable and creatable, the step succeeds with the stored count
  equal to the number of groups when they are at most the bound, and fails when they are
  more; a failed identity step fails the creation of the app.
\<close>

lemma CreateUserAndGroups_unsandboxed:
  "\<not> sandboxed appRef \<Longrightarrow>
     CreateUserAndGroups ie appRef = (LE_OK, appRef\<lparr>uid := 0, gid := 0\<rparr>)"
  by (simp add: CreateUserAndGroups_def)

lemma ReadGroups_result:
  assumes "i < LIMIT_MAX_NUM_SUPPLEMENTARY_GROUPS ie"
    and "\<forall>n \<in> set (node # rest). fst n = LE_OK \<and> fst (user_CreateGroup ie (snd n)) \<noteq> LE_FAULT"
  shows "fst (ReadGroups ie i node rest gids) =
           (if i + length rest < LIMIT_MAX_NUM_SUPPLEMENTARY_GROUPS ie then LE_OK else LE_FAULT)
       \<and> (i + length rest < LIMIT_MAX_NUM_SUPPLEMENTARY_GROUPS ie \<longrightarrow>
            snd (snd (ReadGroups ie i node rest gids)) = i + length rest)"
  using assms
proof (induction rest arbitrary: i node gids)
  case Nil
  then show ?case by (subst (1 2) ReadGroups.simps) (simp add: Let_def)
next
  case (Cons node' rest')
  show ?case
  proof (cases "i \<ge> LIMIT_MAX_NUM_SUPPLEMENTARY_GROUPS ie - 1")
    case True
    then show ?thesis using Cons.prems
      by (subst (1 2) ReadGroups.simps) (auto simp: Let_def)
  next
    case False
    then have i': "Suc i < LIMIT_MAX_NUM_SUPPLEMENTARY_GROUPS ie" by simp
    have ok: "\<forall>n \<in> set (node' # rest'). fst n = LE_OK \<and> fst (user_CreateGroup ie (snd n)) \<noteq> LE_FAULT"
      using Cons.prems(2) by simp
    note IH = Cons.IH [OF i' ok, of "gids[i := snd (user_CreateGroup ie (snd node))]"]
    have "ReadGroups ie i node (node' # rest') gids =
            ReadGroups ie (Suc i) node' rest' (gids[i := snd (user_CreateGroup ie (snd node))])"
      using False Cons.prems by (subst ReadGroups.simps) (simp add: Let_def)
    then show ?thesis using IH by simp
  qed
qed

lemma CreateSupplementaryGroups_count:
  assumes "0 < LIMIT_MAX_NUM_SUPPLEMENTARY_GROUPS ie"
    and "cfg_groups ie \<noteq> []"
    and "\<forall>n \<in> set (cfg_groups ie). fst n = LE_OK \<and> fst (user_CreateGroup ie (snd n)) \<noteq> LE_FAULT"
  shows "length (cfg_groups ie) \<le> LIMIT_MAX_NUM_SUPPLEMENTARY_GROUPS ie \<Longrightarrow>
           fst (CreateSupplementaryGroups ie appRef) = LE_OK
           \<and> numSupplementGids (snd (CreateSupplementaryGroups ie appRef)) = length (cfg_groups ie)"
    and "LIMIT_MAX_NUM_SUPPLEMENTARY_GROUPS ie < length (cfg_groups ie) \<Longrightarrow>
           fst (CreateSupplementaryGroups ie appRef) = LE_FAULT"
proof -
  from assms(2) obtain node rest where c: "cfg_groups ie = node # rest" by (cases "cfg_groups ie") auto
  have ok: "\<forall>n \<in> set (node # rest). fst n = LE_OK \<and> fst (user_CreateGroup ie (snd n)) \<noteq> LE_FAULT"
    using assms(3) c by simp
  note R = ReadGroups_result [OF assms(1) ok, of "supplementGids appRef"]
  show "length (cfg_groups ie) \<le> LIMIT_MAX_NUM_SUPPLEMENTARY_GROUPS ie \<Longrightarrow>
           fst (CreateSupplementaryGroups ie appRef) = LE_OK
           \<and> numSupplementGids (snd (CreateSupplementaryGroups ie appRef)) = length (cfg_groups ie)"
    using R c by (auto simp: CreateSupplementaryGroups_def split: prod.splits)
  show "LIMIT_MAX_NUM_SUPPLEMENTARY_GROUPS ie < length (cfg_groups ie) \<Longrightarrow>
           fst (CreateSupplementaryGroups ie appRef) = LE_FAULT"
    using R c by (auto simp: CreateSupplementaryGroups_def split: prod.splits)
qed

lemma app_Create_identity_fails:
  "fst (CreateUserAndGroups ie
          (block\<lparr>cfgPathRoot := path, name := basename path ''/'', procs := [], auxProcs := [],
                 state := APP_STATE_STOPPED, killTimer := None, sandboxed := sb\<rparr>)) \<noteq> LE_OK
   \<Longrightarrow> app_Create ie maxPath basename sb laterSteps block path = None"
  by (auto simp: app_Create_def Let_def split: prod.splits)

text \<open>
  C7. The claim asks for an empty supplementary-group list on every unsandboxed app and
  for a stored count equal to the number of groups read. The code writes
  \<^verbatim>\<open>numSupplementGids\<close> only after reading at least one group: neither
  \<^verbatim>\<open>app_Create\<close>, nor the unsandboxed branch, nor the early return for a config
  without groups sets it. On a pool block that last held an app with two groups, the
  created app, unsandboxed or sandboxed with no group configured, keeps the count 2.
\<close>

theorem CreateUserAndGroups_stale_count:
  "map_option numSupplementGids
     (app_Create demoIdent 512 demoBasename False Some twoGroupsApp ''/apps/gps'') = Some 2
   \<and> map_option uid
     (app_Create demoIdent 512 demoBasename False Some twoGroupsApp ''/apps/gps'') = Some 0
   \<and> map_option gid
     (app_Create demoIdent 512 demoBasename False Some twoGroupsApp ''/apps/gps'') = Some 0
   \<and> map_option sandboxed
     (app_Create demoIdent 512 demoBasename False Some twoGroupsApp ''/apps/gps'') = Some False
   \<and> cfg_groups demoIdent = []
   \<and> map_option numSupplementGids
     (app_Create demoIdent 512 demoBasename True Some twoGroupsApp ''/apps/gps'') = Some 2
   \<and> map_option sandboxed
     (app_Create demoIdent 512 demoBasename True Some twoGroupsApp ''/apps/gps'') = Some True"
  by (simp add: app_Create_def CreateUserAndGroups_def CreateSupplementaryGroups_def
      demoIdent_def twoGroupsApp_def Let_def)

subsection \<open>Destination paths of links\<close>

lemma last_char_suffix:
  "destPtr \<noteq> [] \<Longrightarrow> (destPtr ! (length destPtr - 1) = c) = suffix [c] destPtr"
  by (cases destPtr rule: rev_cases) (auto simp: suffix_def)

text \<open>
  C8. For every source path, working directory and (non-empty) destination path, with a
  buffer of positive size: if the destination ends in \<^verbatim>\<open>/\<close>, the computed path is the
  join of the working directory, the destination and the basename of the source;
  otherwise it is the join of the working directory and the destination as it is.
\<close>

theorem GetAbsDestPath_spec:
  assumes "destPtr \<noteq> []" and "0 < bufSize"
  shows "(suffix ''/'' destPtr \<longrightarrow>
            GetAbsDestPath le_path_Concat le_path_GetBasenamePtr destPtr srcPtr appRunDir bufSize =
              Some (le_path_Concat ''/'' [] bufSize
                      [appRunDir, destPtr, le_path_GetBasenamePtr srcPtr ''/'']))
       \<and> (\<not> suffix ''/'' destPtr \<longrightarrow>
            GetAbsDestPath le_path_Concat le_path_GetBasenamePtr destPtr srcPtr appRunDir bufSize =
              Some (le_path_Concat ''/'' [] bufSize [appRunDir, destPtr]))"
  using assms last_char_suffix [OF assms(1), of "CHR ''/''"]
  by (simp add: GetAbsDestPath_def)

theorem GetAbsDestPath_spec_witness:
  "GetAbsDestPath demoConcat demoBasename ''/lib/'' ''/usr/lib/libm.so.6''
       ''/legato/appsWriteable/gps'' 512 =
     Some (LE_OK, ''/legato/appsWriteable/gps/lib/libm.so.6'')
   \<and> GetAbsDestPath demoConcat demoBasename ''/bin/tool'' ''/usr/bin/tool.real''
       ''/legato/appsWriteable/gps'' 512 =
     Some (LE_OK, ''/legato/appsWriteable/gps/bin/tool'')"
proof -
  have a: "suffix ''/'' ''/lib/''"
    using last_char_suffix [of "''/lib/''" "CHR ''/''"] by simp
  have b: "\<not> suffix ''/'' ''/bin/tool''"
    using last_char_suffix [of "''/bin/tool''" "CHR ''/''"] by simp
  from GetAbsDestPath_spec [of "''/lib/''" 512 demoConcat demoBasename "''/usr/lib/libm.so.6''"
      "''/legato/appsWriteable/gps''"] a
  have r1: "GetAbsDestPath demoConcat demoBasename ''/lib/'' ''/usr/lib/libm.so.6''
       ''/legato/appsWriteable/gps'' 512 =
     Some (LE_OK, ''/legato/appsWriteable/gps/lib/libm.so.6'')"
    by (simp add: demoConcat_def demoBasename_def)
  from GetAbsDestPath_spec [of "''/bin/tool''" 512 demoConcat demoBasename "''/usr/bin/tool.real''"
      "''/legato/appsWriteable/gps''"] b
  have r2: "GetAbsDestPath demoConcat demoBasename ''/bin/tool'' ''/usr/bin/tool.real''
       ''/legato/appsWriteable/gps'' 512 =
     Some (LE_OK, ''/legato/appsWriteable/gps/bin/tool'')"
    by (simp add: demoConcat_def)
  show ?thesis using r1 r2 by simp
qed

subsection \<open>Joining a thread\<close>

text \<open>
  C9 (amended). \<^verbatim>\<open>le_thread_Join\<close> returns \<^verbatim>\<open>LE_NOT_FOUND\<close> for a reference that
  the map does not know. For a known thread it returns \<^verbatim>\<open>LE_NOT_POSSIBLE\<close> when the
  thread is not joinable, whoever the caller is; \<^verbatim>\<open>LE_DEADLOCK\<close> when a joinable
  thread joins with itself, the operating system refusing such a join as a deadlock, and
  whenever else the operating system reports a deadlock; \<^verbatim>\<open>LE_NOT_FOUND\<close> when the
  operating system does not know the thread; and when the join succeeds, \<^verbatim>\<open>LE_OK\<close>,
  with the object removed from the list of thread objects, its safe reference deleted
  from the map and the object released to the pool.
\<close>

theorem le_thread_Join_spec:
  "(ThreadRefMap m thread = None \<longrightarrow>
      le_thread_Join pthread_join self m thread = Some (LE_NOT_FOUND, m))
   \<and> (\<forall>threadPtr obj.
         ThreadRefMap m thread = Some threadPtr \<and> ThreadPool m threadPtr = Some obj \<longrightarrow>
           (\<not> isJoinable obj \<longrightarrow>
              le_thread_Join pthread_join self m thread = Some (LE_NOT_POSSIBLE, m))
         \<and> (isJoinable obj \<and> threadHandle obj = self \<and> pthread_join self self = EDEADLK \<longrightarrow>
              le_thread_Join pthread_join self m thread = Some (LE_DEADLOCK, m))
         \<and> (isJoinable obj \<and> pthread_join self (threadHandle obj) = EDEADLK \<longrightarrow>
              le_thread_Join pthread_join self m thread = Some (LE_DEADLOCK, m))
         \<and> (isJoinable obj \<and> pthread_join self (threadHandle obj) = ESRCH \<longrightarrow>
              le_thread_Join pthread_join self m thread = Some (LE_NOT_FOUND, m))
         \<and> (isJoinable obj \<and> pthread_join self (threadHandle obj) = JOIN_0 \<longrightarrow>
              (\<exists>m'. le_thread_Join pthread_join self m thread = Some (LE_OK, m')
                 \<and> ThreadObjList m' = remove1 threadPtr (ThreadObjList m)
                 \<and> (distinct (ThreadObjList m) \<longrightarrow> threadPtr \<notin> set (ThreadObjList m'))
                 \<and> ThreadRefMap m' = (ThreadRefMap m)(safeRef obj := None)
                 \<and> ThreadRefMap m' (safeRef obj) = None
                 \<and> ThreadPool m' = (ThreadPool m)(threadPtr := None)
                 \<and> ThreadPool m' threadPtr = None
                 \<and> ThreadObjListChangeCount m' = ThreadObjListChangeCount m + 1)))"
  by (auto simp: le_thread_Join_def)

theorem le_thread_Join_spec_witness:
  "le_thread_Join demoJoin 99 demoThreads 3 = Some (LE_NOT_FOUND, demoThreads)
   \<and> le_thread_Join demoJoin 99 demoThreads 2 = Some (LE_NOT_POSSIBLE, demoThreads)
   \<and> demoJoin 77 77 = EDEADLK
   \<and> le_thread_Join demoJoin 77 demoThreads 1 = Some (LE_DEADLOCK, demoThreads)
   \<and> (\<exists>m'. le_thread_Join demoJoin 99 demoThreads 1 = Some (LE_OK, m')
         \<and> ThreadObjList m' = [11] \<and> ThreadRefMap m' 1 = None \<and> ThreadPool m' 10 = None
         \<and> ThreadRefMap m' 2 = Some 11)"
proof -
  let ?worker = "\<lparr>thr_name = ''worker'', isJoinable = True, thr_state = THREAD_STATE_RUNNING,
                 threadHandle = 77, safeRef = 1\<rparr>"
  let ?logger = "\<lparr>thr_name = ''logger'', isJoinable = False, thr_state = THREAD_STATE_RUNNING,
                 threadHandle = 78, safeRef = 2\<rparr>"
  have m3: "ThreadRefMap demoThreads 3 = None" by (simp add: demoThreads_def)
  have m2: "ThreadRefMap demoThreads 2 = Some 11 \<and> ThreadPool demoThreads 11 = Some ?logger"
    by (simp add: demoThreads_def)
  have m1: "ThreadRefMap demoThreads 1 = Some 10 \<and> ThreadPool demoThreads 10 = Some ?worker"
    by (simp add: demoThreads_def)
  have d: "demoJoin 77 77 = EDEADLK" by (simp add: demoJoin_def)
  have r3: "le_thread_Join demoJoin 99 demoThreads 3 = Some (LE_NOT_FOUND, demoThreads)"
    using le_thread_Join_spec [of demoThreads 3 demoJoin 99] m3 by blast
  have r2: "le_thread_Join demoJoin 99 demoThreads 2 = Some (LE_NOT_POSSIBLE, demoThreads)"
    using le_thread_Join_spec [of demoThreads 2 demoJoin 99] m2 by simp
  have r1: "le_thread_Join demoJoin 77 demoThreads 1 = Some (LE_DEADLOCK, demoThreads)"
    using le_thread_Join_spec [of demoThreads 1 demoJoin 77] m1 d by simp
  have "\<exists>m'. le_thread_Join demoJoin 99 demoThreads 1 = Some (LE_OK, m')
                 \<and> ThreadObjList m' = remove1 10 (ThreadObjList demoThreads)
                 \<and> ThreadRefMap m' = (ThreadRefMap demoThreads)(safeRef ?worker := None)
                 \<and> ThreadPool m' = (ThreadPool demoThreads)(10 := None)"
    using le_thread_Join_spec [of demoThreads 1 demoJoin 99] m1 by (auto simp: demoJoin_def)
  then obtain m' where "le_thread_Join demoJoin 99 demoThreads 1 = Some (LE_OK, m')"
    "ThreadObjList m' = remove1 10 (ThreadObjList demoThreads)"
    "ThreadRefMap m' = (ThreadRefMap demoThreads)(safeRef ?worker := None)"
    "ThreadPool m' = (ThreadPool demoThreads)(10 := None)" by blast
  then have r0: "\<exists>m'. le_thread_Join demoJoin 99 demoThreads 1 = Some (LE_OK, m')
         \<and> ThreadObjList m' = [11] \<and> ThreadRefMap m' 1 = None \<and> ThreadPool m' 10 = None
         \<and> ThreadRefMap m' 2 = Some 11"
    by (simp add: demoThreads_def)
  show ?thesis using r3 r2 r1 r0 d by blast
qed

text \<open>
  C9 as stated fails for a thread that is not joinable, as every thread is by default,
  and joins with itself: the detached thread with handle 78 names its own reference.
  Joinability is tested before the operating system is asked, so the result is
  \<^verbatim>\<open>LE_NOT_POSSIBLE\<close>, not \<^verbatim>\<open>LE_DEADLOCK\<close>, although the operating system would have
  refused the join as a deadlock.
\<close>

theorem le_thread_Join_self_counterexample:
  "ThreadRefMap demoThreads 2 = Some 11
   \<and> map_option threadHandle (ThreadPool demoThreads 11) = Some 78
   \<and> map_option isJoinable (ThreadPool demoThreads 11) = Some False
   \<and> demoJoin 78 78 = EDEADLK
   \<and> le_thread_Join demoJoin 78 demoThreads 2 = Some (LE_NOT_POSSIBLE, demoThreads)"
  by (simp add: le_thread_Join_def demoThreads_def demoJoin_def)

end
